theory Spec2Isabelle
  imports Complex_Main
begin

section \<open>Numbers, instants and strings of the program\<close>

text \<open>
  OpenLog is a TypeScript service. Its numbers are modelled as follows: a count or a
  threshold is a \<open>real\<close>, the value of the double (a comparison of two doubles is
  the comparison of their values; the one division the alerting code performs is
  rounded to the nearest double, see below), an instant (a \<open>Date\<close>) is its number of
  milliseconds since the epoch, an \<open>int\<close>, and a string is a \<open>string\<close>, one
  \<open>char\<close> per character of the text, with \<open>length\<close> the text's length; the texts
  covered are those whose characters lie below 256.
\<close>

subsection \<open>Characters and decimal numerals\<close>

text \<open>
  \<open>\d\<close> in a JavaScript regular expression is one of the ten ASCII digits. \<open>\s\<close>
  and \<open>String.prototype.trim\<close> share one set of white space; among the characters
  below 256 these are tab, line feed, vertical tab, form feed, carriage return, space
  and the no-break space.
\<close>

definition isDigit :: "char \<Rightarrow> bool" where
  "isDigit c = (c \<in> set ''0123456789'')"

definition isSpace :: "char \<Rightarrow> bool" where
  "isSpace c = (c \<in> {CHR 0x09, CHR 0x0A, CHR 0x0B, CHR 0x0C, CHR 0x0D, CHR 0x20, CHR 0xA0})"

text \<open>
  The value of a run of decimal digits: what \<open>parseInt(ds, 10)\<close> gives for a run
  whose value is below 2^53.
\<close>

definition digitsValue :: "string \<Rightarrow> nat" where
  "digitsValue ds = foldl (\<lambda>acc c. 10 * acc + (of_char c - 48)) 0 ds"

subsection \<open>Doubles\<close>

text \<open>
  A JavaScript number is an IEEE 754 double: 53 significant bits, exponents from -1022
  to 1023, and every operation rounded to the nearest double, a tie going to the even
  significand. \<open>bitLength n\<close> is the number of binary digits of a positive integer;
  \<open>exponentOf x\<close> is the exponent of a positive real, the \<open>e\<close> with
  \<open>2^e \<le> x < 2^(e+1)\<close>.
\<close>

function bitLength :: "int \<Rightarrow> int" where
  "bitLength n = (if n \<le> 0 then 0 else 1 + bitLength (n div 2))"
  by pat_completeness auto
termination by (relation "measure nat") auto

declare bitLength.simps [simp del]

definition exponentOf :: "real \<Rightarrow> int" where
  "exponentOf x = (if x \<ge> 1 then bitLength \<lfloor>x\<rfloor> - 1 else - bitLength (\<lceil>1 / x\<rceil> - 1))"

definition roundHalfEven :: "real \<Rightarrow> int" where
  "roundHalfEven m =
     (let f = \<lfloor>m\<rfloor>; d = m - of_int f
      in if d < 1 / 2 then f else if d > 1 / 2 then f + 1 else if even f then f else f + 1)"

text \<open>
  The result of an arithmetic operation: a finite double, an infinity or \<open>NaN\<close>.
  \<open>roundDouble x\<close> is the double nearest to the real \<open>x\<close>: the doubles around
  \<open>x\<close> are the multiples of \<open>2^(e - 52)\<close>, where \<open>e\<close> is the exponent of
  \<open>x\<close> and at least -1022 (below that the doubles are subnormal and equally
  spaced), and a rounded value of 2^1024 or more is an infinity. The sign of a zero is
  not kept; no comparison depends on it.
\<close>

datatype jsReal = Finite real | PlusInfinity | MinusInfinity | NotANumber

definition doubleOverflow :: real where
  "doubleOverflow = 2 ^ 1024"

definition roundDouble :: "real \<Rightarrow> jsReal" where
  "roundDouble x =
     (if x = 0 then Finite 0
      else let a = \<bar>x\<bar>;
               e = max (exponentOf a) (- 1022);
               u = 2 powi (e - 52);
               r = of_int (roundHalfEven (a / u)) * u
           in if r \<ge> doubleOverflow then (if x > 0 then PlusInfinity else MinusInfinity)
              else Finite (if x > 0 then r else - r))"

text \<open>
  \<open>a / b\<close> on two doubles: the exact quotient, rounded. A division by zero does not
  fail: a positive value over zero is \<open>Infinity\<close>, a negative one \<open>-Infinity\<close> and
  zero over zero is \<open>NaN\<close>. \<open>x >= c\<close> for a result \<open>x\<close> and a finite \<open>c\<close> is
  false when \<open>x\<close> is \<open>NaN\<close>.
\<close>

definition jsDivide :: "real \<Rightarrow> real \<Rightarrow> jsReal" where
  "jsDivide a b =
     (if b = 0 then (if a > 0 then PlusInfinity else if a < 0 then MinusInfinity else NotANumber)
      else roundDouble (a / b))"

fun jsGe :: "jsReal \<Rightarrow> real \<Rightarrow> bool" where
  "jsGe (Finite x) c = (x \<ge> c)"
| "jsGe PlusInfinity c = True"
| "jsGe MinusInfinity c = False"
| "jsGe NotANumber c = False"

text \<open>\<open>a || b\<close> on strings: the empty string is the one falsy string.\<close>

definition strOr :: "string \<Rightarrow> string \<Rightarrow> string" where
  "strOr a b = (if a = [] then b else a)"

subsection \<open>Dates\<close>

text \<open>
  A \<open>Date\<close> holds a time value of at most 8.64e15 milliseconds either side of the
  epoch; \<open>new Date(v)\<close> with \<open>v\<close> outside that range is the invalid date, whose time
  value is \<open>NaN\<close>. Every comparison with \<open>NaN\<close> is false and \<open>toISOString\<close> of the
  invalid date throws a \<open>RangeError\<close>. All time values in range are integers below
  2^53, so integer arithmetic is exact where the result is a valid date.
\<close>

datatype jsDate = ValidDate int | InvalidDate

definition newDate :: "int \<Rightarrow> jsDate" where
  "newDate v = (if \<bar>v\<bar> \<le> 8640000000000000 then ValidDate v else InvalidDate)"

fun dateLess :: "jsDate \<Rightarrow> jsDate \<Rightarrow> bool" where
  "dateLess (ValidDate a) (ValidDate b) = (a < b)"
| "dateLess _ _ = False"

datatype error = Error string | RangeError | TypeError

fun toISOString :: "jsDate \<Rightarrow> error + int" where
  "toISOString (ValidDate v) = Inr v"
| "toISOString InvalidDate = Inl RangeError"

section \<open>Configuration (src/config/config.ts)\<close>

text \<open>
  A rule as \<open>AlertRuleSchema\<close> yields it (\<open>z.infer\<close>): every field with a default is
  present. \<open>headers\<close> alone stays optional.
\<close>

record AlertRule =
  name :: string
  enabled :: bool
  window :: string
  query :: string
  threshold :: real
  operator :: string
  webhook :: string
  headers :: "(string \<rightharpoonup> string) option"
  cooldown :: string

text \<open>
  A rule definition as the configuration file gives it: the fields the schema declares
  with \<open>.default\<close> or \<open>.optional\<close> may be omitted.
\<close>

record RawAlertRule =
  raw_name :: string
  raw_enabled :: "bool option"
  raw_window :: string
  raw_query :: string
  raw_threshold :: real
  raw_operator :: "string option"
  raw_webhook :: string
  raw_headers :: "(string \<rightharpoonup> string) option"
  raw_cooldown :: "string option"

text \<open>The regular expression \<open>/^\d+[mhd]$/\<close>: one or more digits, then one unit letter.\<close>

definition matchesWindow :: "string \<Rightarrow> bool" where
  "matchesWindow w =
     (w \<noteq> [] \<and> butlast w \<noteq> [] \<and> list_all isDigit (butlast w) \<and> last w \<in> set ''mhd'')"

text \<open>
  \<open>AlertRuleSchema.parse\<close>: the checks of the schema and its defaults. \<open>z.url()\<close> is
  a check of the validation library; it is the parameter \<open>isUrl\<close>. \<open>None\<close> is the
  \<open>ZodError\<close>.
\<close>

definition AlertRuleSchema :: "(string \<Rightarrow> bool) \<Rightarrow> RawAlertRule \<Rightarrow> AlertRule option" where
  "AlertRuleSchema isUrl r =
     (if matchesWindow (raw_window r)
         \<and> raw_threshold r > 0
         \<and> (case raw_operator r of None \<Rightarrow> True
             | Some oper \<Rightarrow> oper \<in> set [''gt'', ''gte'', ''lt'', ''lte'', ''eq''])
         \<and> isUrl (raw_webhook r)
         \<and> (case raw_cooldown r of None \<Rightarrow> True | Some c \<Rightarrow> matchesWindow c)
      then Some \<lparr> name = raw_name r,
                  enabled = (case raw_enabled r of None \<Rightarrow> False | Some b \<Rightarrow> b),
                  window = raw_window r,
                  query = raw_query r,
                  threshold = raw_threshold r,
                  operator = (case raw_operator r of None \<Rightarrow> ''gt'' | Some oper \<Rightarrow> oper),
                  webhook = raw_webhook r,
                  headers = raw_headers r,
                  cooldown = (case raw_cooldown r of None \<Rightarrow> ''5m'' | Some c \<Rightarrow> c) \<rparr>
      else None)"

record Config =
  alerting_enabled :: bool
  alerting_checkInterval :: real
  debug :: bool
  alerts :: "AlertRule list"

definition getAlertRules :: "Config \<Rightarrow> AlertRule list" where
  "getAlertRules config = filter enabled (alerts config)"

text \<open>
  \<open>ConfigManager.parseTimeWindow\<close>: the window in milliseconds, or the \<open>Error\<close> it
  throws when the text does not match \<open>/^(\d+)([mhd])$/\<close>.
\<close>

definition parseTimeWindow :: "string \<Rightarrow> error + int" where
  "parseTimeWindow w =
     (if \<not> matchesWindow w then Inl (Error (''Invalid time window format: '' @ w))
      else let v = int (digitsValue (butlast w)); unit = last w in
        if unit = CHR ''m'' then Inr (v * 60 * 1000)
        else if unit = CHR ''h'' then Inr (v * 60 * 60 * 1000)
        else if unit = CHR ''d'' then Inr (v * 24 * 60 * 60 * 1000)
        else Inl (Error (''Unknown time unit: '' @ [unit])))"

text \<open>
  \<open>ConfigManager.checkThreshold\<close>: a \<open>switch\<close> over the operator string whose
  \<open>default\<close> branch returns \<open>false\<close>.
\<close>

definition checkThreshold :: "real \<Rightarrow> real \<Rightarrow> string \<Rightarrow> bool" where
  "checkThreshold v thresh oper =
     (if oper = ''gt'' then v > thresh
      else if oper = ''gte'' then v \<ge> thresh
      else if oper = ''lt'' then v < thresh
      else if oper = ''lte'' then v \<le> thresh
      else if oper = ''eq'' then v = thresh
      else False)"

section \<open>Log store (src/storage/database.ts)\<close>

text \<open>
  The SQLite engine is outside the repository. What \<open>prepare\<close> and \<open>get\<close> do with a
  query text and its two bound instants is a parameter: they throw, they find no row,
  or they return a row, of which \<open>runAlertQuery\<close> reads the first value.
\<close>

datatype sqlValue = SqlNumber real | SqlText string | SqlNull

datatype queryOutcome = QueryThrows | NoRow | Row "sqlValue list"

type_synonym sqlite = "string \<Rightarrow> int \<Rightarrow> int \<Rightarrow> queryOutcome"

definition fullQuery :: "string \<Rightarrow> string" where
  "fullQuery predicate =
     ''SELECT COUNT(*) as count FROM logs WHERE timestamp >= $startTime AND timestamp <= $endTime AND (''
       @ predicate @ '')''"

text \<open>
  \<open>LogDatabase.runAlertQuery\<close>. The whole body is inside \<open>try\<close>; the \<open>catch\<close> block
  logs and returns 0. The two \<open>toISOString\<close> calls are inside it as well.
\<close>

definition runAlertQuery :: "sqlite \<Rightarrow> string \<Rightarrow> jsDate \<Rightarrow> jsDate \<Rightarrow> real" where
  "runAlertQuery db predicate startTime endTime =
     (case toISOString startTime of Inl _ \<Rightarrow> 0
      | Inr st \<Rightarrow>
     (case toISOString endTime of Inl _ \<Rightarrow> 0
      | Inr en \<Rightarrow>
     (case db (fullQuery predicate) st en of
        QueryThrows \<Rightarrow> 0
      | NoRow \<Rightarrow> 0
      | Row vs \<Rightarrow> (case vs of SqlNumber n # _ \<Rightarrow> n | _ \<Rightarrow> 0))))"

record AlertHistory =
  alertName :: string
  count :: real
  windowStart :: jsDate
  windowEnd :: jsDate

section \<open>Webhook notifier (alerting/webhook.ts)\<close>

text \<open>
  The payload of a notification. The three instants are kept as time values rather than
  as ISO-8601 text; the text of a number inside \<open>message\<close> is the parameter
  \<open>numberToString\<close>. \<open>metadata\<close>, the empty object in the one call of \<open>sendAlert\<close>,
  is left out.
\<close>

record WebhookPayload =
  payload_alertName :: string
  payload_severity :: string
  payload_timestamp :: int
  window_start :: int
  window_end :: int
  window_duration :: string
  trigger_query :: string
  trigger_threshold :: real
  trigger_operator :: string
  trigger_actualValue :: real
  payload_message :: string

text \<open>
  \<open>WebhookNotifier.getSeverity\<close> computes \<open>ratio = actualValue / threshold\<close>, a
  division of two doubles, and compares the ratio with 2 and 1.5.
\<close>

definition getSeverity :: "real \<Rightarrow> real \<Rightarrow> string" where
  "getSeverity actualValue thresh =
     (let ratio = jsDivide actualValue thresh in
        if jsGe ratio 2 then ''critical''
        else if jsGe ratio 1.5 then ''warning''
        else ''info'')"

definition operatorText :: "string \<Rightarrow> string" where
  "operatorText oper =
     (if oper = ''gt'' then ''greater than''
      else if oper = ''gte'' then ''greater than or equal to''
      else if oper = ''lt'' then ''less than''
      else if oper = ''lte'' then ''less than or equal to''
      else if oper = ''eq'' then ''equal to''
      else oper)"

definition buildMessage :: "(real \<Rightarrow> string) \<Rightarrow> AlertRule \<Rightarrow> real \<Rightarrow> string" where
  "buildMessage numberToString rule actualValue =
     ''Alert \"'' @ name rule @ ''\" triggered: Count ('' @ numberToString actualValue
       @ '') is '' @ operatorText (strOr (operator rule) ''gt'')
       @ '' threshold ('' @ numberToString (threshold rule)
       @ '') in the last '' @ window rule"

text \<open>What \<open>fetch\<close> does with the URL, the headers and the payload is the environment's.\<close>

datatype fetchOutcome = FetchThrows | Response bool

type_synonym fetcher = "string \<Rightarrow> (string \<rightharpoonup> string) \<Rightarrow> WebhookPayload \<Rightarrow> fetchOutcome"

definition requestHeaders :: "AlertRule \<Rightarrow> (string \<rightharpoonup> string)" where
  "requestHeaders rule =
     [''Content-Type'' \<mapsto> ''application/json'', ''User-Agent'' \<mapsto> ''OpenLog/1.0'']
       ++ (case headers rule of None \<Rightarrow> Map.empty | Some h \<Rightarrow> h)"

text \<open>
  \<open>WebhookNotifier.sendAlert\<close>. The payload is built before the \<open>try\<close> block, so a
  \<open>RangeError\<close> of \<open>toISOString\<close> leaves the function; inside the block a response
  gives \<open>response.ok\<close> and a thrown error gives \<open>false\<close>. The result is the payload
  that was posted and the success flag.
\<close>

definition sendAlert ::
  "fetcher \<Rightarrow> (real \<Rightarrow> string) \<Rightarrow> int \<Rightarrow> AlertRule \<Rightarrow> real \<Rightarrow> jsDate \<Rightarrow> jsDate
     \<Rightarrow> error + (WebhookPayload \<times> bool)" where
  "sendAlert fetch numberToString now rule actualValue wStart wEnd =
     (case toISOString wStart of Inl e \<Rightarrow> Inl e
      | Inr st \<Rightarrow>
     (case toISOString wEnd of Inl e \<Rightarrow> Inl e
      | Inr en \<Rightarrow>
        let payload = \<lparr> payload_alertName = name rule,
                        payload_severity = getSeverity actualValue (threshold rule),
                        payload_timestamp = now,
                        window_start = st,
                        window_end = en,
                        window_duration = window rule,
                        trigger_query = query rule,
                        trigger_threshold = threshold rule,
                        trigger_operator = strOr (operator rule) ''gt'',
                        trigger_actualValue = actualValue,
                        payload_message = buildMessage numberToString rule actualValue \<rparr>
        in (case fetch (webhook rule) (requestHeaders rule) payload of
              Response ok \<Rightarrow> Inr (payload, ok)
            | FetchThrows \<Rightarrow> Inr (payload, False))))"

section \<open>Alert engine (alerting/alert-engine.ts)\<close>

text \<open>
  The engine's own state is \<open>lastAlertTimes\<close>; the alert history table of the log
  store is carried with it. Two further lists record, in order, the count queries handed
  to the log store and the payloads posted, so that "no query is issued" and "no
  dispatch occurs" can be said of a step.
\<close>

record engine =
  lastAlertTimes :: "string \<rightharpoonup> int"
  alert_history :: "AlertHistory list"
  queries :: "(string \<times> jsDate \<times> jsDate) list"
  posts :: "WebhookPayload list"

text \<open>
  What one call of \<open>checkRule\<close> takes from outside: the four readings of the clock
  (\<open>new Date()\<close> in \<open>isInCooldown\<close>, as \<open>endTime\<close>, as the payload's timestamp and
  for \<open>lastAlertTimes\<close>), the log store and the network. The system clock is within
  the range of a valid date.
\<close>

record env =
  clock_cooldown :: int
  clock_end :: int
  clock_payload :: int
  clock_fired :: int
  db :: sqlite
  fetch :: fetcher
  numberToString :: "real \<Rightarrow> string"

definition isInCooldown :: "int \<Rightarrow> AlertRule \<Rightarrow> (string \<rightharpoonup> int) \<Rightarrow> error + bool" where
  "isInCooldown now rule lastTimes =
     (case lastTimes (name rule) of
        None \<Rightarrow> Inr False
      | Some lastAlert \<Rightarrow>
          (case parseTimeWindow (strOr (cooldown rule) ''5m'') of
             Inl e \<Rightarrow> Inl e
           | Inr cooldownMs \<Rightarrow>
               Inr (dateLess (ValidDate now) (newDate (lastAlert + cooldownMs)))))"

text \<open>
  \<open>AlertEngine.checkRule\<close>: the error it throws, if any, and the state it leaves.
  The insertion into the history table is taken to succeed.
\<close>

definition checkRule :: "env \<Rightarrow> AlertRule \<Rightarrow> engine \<Rightarrow> error option \<times> engine" where
  "checkRule e rule s =
     (case isInCooldown (clock_cooldown e) rule (lastAlertTimes s) of
        Inl err \<Rightarrow> (Some err, s)
      | Inr True \<Rightarrow> (None, s)
      | Inr False \<Rightarrow>
     (case parseTimeWindow (window rule) of
        Inl err \<Rightarrow> (Some err, s)
      | Inr windowMs \<Rightarrow>
        let endTime = ValidDate (clock_end e);
            startTime = newDate (clock_end e - windowMs);
            cnt = runAlertQuery (db e) (query rule) startTime endTime;
            s1 = s\<lparr>queries := queries s @ [(query rule, startTime, endTime)]\<rparr>;
            shouldAlert = checkThreshold cnt (threshold rule) (strOr (operator rule) ''gt'')
        in if shouldAlert then
             (case sendAlert (fetch e) (numberToString e) (clock_payload e) rule cnt startTime endTime of
                Inl err \<Rightarrow> (Some err, s1)
              | Inr (payload, success) \<Rightarrow>
                  let s2 = s1\<lparr>posts := posts s1 @ [payload]\<rparr> in
                  if success then
                    (None, s2\<lparr>lastAlertTimes := (lastAlertTimes s2)(name rule \<mapsto> clock_fired e),
                              alert_history := alert_history s2 @
                                [\<lparr>alertName = name rule, count = cnt,
                                  windowStart = startTime, windowEnd = endTime\<rparr>]\<rparr>)
                  else (None, s2))
           else (None, s1)))"

subsection \<open>The scheduler\<close>

text \<open>
  \<open>AlertEngine.start\<close> installs a timer, unless alerting is disabled; its callback
  calls \<open>runChecks\<close> when \<open>isRunning\<close> is false. \<open>stop\<close> clears the timer.
  \<open>runChecks\<close> is asynchronous: it sets \<open>isRunning\<close>, reads the enabled rules, awaits
  \<open>checkRule\<close> for each of them in turn inside a \<open>try\<close> that logs what a rule
  throws, and clears \<open>isRunning\<close> in its \<open>finally\<close> block. Timer callbacks may run
  while it is suspended in an \<open>await\<close>.

  The state holds whether the timer is installed (\<open>checkInterval\<close> is not \<open>null\<close>),
  the flag, and the activations of \<open>runChecks\<close> that are in flight, each with the
  rules it has still to check; nothing in the type bounds their number. \<open>checked\<close>
  records the rules handed to \<open>checkRule\<close>, in order. An event is a call of \<open>start\<close>
  or \<open>stop\<close>, a timer callback, or the resumption of an activation, which checks its
  next rule and, after the last one, runs the \<open>finally\<close> block. A timer that is not
  installed fires no callback.
\<close>

record scheduler =
  checkInterval :: bool
  isRunning :: bool
  active :: "AlertRule list list"
  checked :: "AlertRule list"
  eng :: engine

datatype event = Start | Stop | Tick | Resume nat env

definition runChecks :: "Config \<Rightarrow> scheduler \<Rightarrow> scheduler" where
  "runChecks config s =
     (let s1 = s\<lparr>isRunning := True\<rparr>; rules = getAlertRules config in
      if rules = [] then s1\<lparr>isRunning := False\<rparr>
      else s1\<lparr>active := active s1 @ [rules]\<rparr>)"

definition resume :: "nat \<Rightarrow> env \<Rightarrow> scheduler \<Rightarrow> scheduler" where
  "resume i e s =
     (if i < length (active s) then
        (case active s ! i of
           [] \<Rightarrow> s
         | rule # rest \<Rightarrow>
             let s1 = s\<lparr>eng := snd (checkRule e rule (eng s)), checked := checked s @ [rule]\<rparr> in
             if rest = []
             then s1\<lparr>active := take i (active s1) @ drop (Suc i) (active s1), isRunning := False\<rparr>
             else s1\<lparr>active := (active s1)[i := rest]\<rparr>)
      else s)"

fun step :: "Config \<Rightarrow> scheduler \<Rightarrow> event \<Rightarrow> scheduler" where
  "step config s Start =
     (if \<not> alerting_enabled config then s else s\<lparr>checkInterval := True\<rparr>)"
| "step config s Stop = (if checkInterval s then s\<lparr>checkInterval := False\<rparr> else s)"
| "step config s Tick =
     (if checkInterval s then (if \<not> isRunning s then runChecks config s else s) else s)"
| "step config s (Resume i e) = resume i e s"

definition run :: "Config \<Rightarrow> scheduler \<Rightarrow> event list \<Rightarrow> scheduler" where
  "run config s es = foldl (step config) s es"

text \<open>The rules of a batch checked one after the other, each with its own environment.\<close>

fun checkAll :: "(env \<times> AlertRule) list \<Rightarrow> engine \<Rightarrow> engine" where
  "checkAll [] g = g"
| "checkAll ((e, rule) # rest) g = checkAll rest (snd (checkRule e rule g))"

text \<open>
  A batch as the event loop may run it: before each resumption of the activation, any
  number of timer callbacks.
\<close>

definition batchEvents :: "(nat \<times> env) list \<Rightarrow> event list" where
  "batchEvents kes = concat (map (\<lambda>(k, e). replicate k Tick @ [Resume 0 e]) kes)"

definition singleFlight :: "scheduler \<Rightarrow> bool" where
  "singleFlight s =
     (length (active s) \<le> 1 \<and> (isRunning s = (active s \<noteq> [])) \<and> [] \<notin> set (active s))"

subsection \<open>A configuration to run the engine on\<close>

definition errorsRaw :: RawAlertRule where
  "errorsRaw = \<lparr> raw_name = ''errors'', raw_enabled = Some True, raw_window = ''15m'',
      raw_query = ''severity <= 3'', raw_threshold = 10, raw_operator = None,
      raw_webhook = ''http://localhost:9000/hook'', raw_headers = None,
      raw_cooldown = None \<rparr>"

definition errorsRule :: AlertRule where
  "errorsRule = \<lparr> name = ''errors'', enabled = True, window = ''15m'',
      query = ''severity <= 3'', threshold = 10, operator = ''gt'',
      webhook = ''http://localhost:9000/hook'', headers = None, cooldown = ''5m'' \<rparr>"

definition onceRule :: AlertRule where
  "onceRule = errorsRule\<lparr>name := ''once'', cooldown := ''100000000d''\<rparr>"

definition mutedRule :: AlertRule where
  "mutedRule = errorsRule\<lparr>name := ''muted'', enabled := False\<rparr>"

definition httpUrl :: "string \<Rightarrow> bool" where
  "httpUrl u = (take 7 u = ''http://'')"

definition exampleConfig :: Config where
  "exampleConfig = \<lparr> alerting_enabled = True, alerting_checkInterval = 60, debug = False,
      alerts = [errorsRule, mutedRule, onceRule] \<rparr>"

text \<open>
  A minute after a notification sent at 1700000000000 ms: the store counts 11 records
  and the endpoint answers with success.
\<close>

definition minuteLater :: env where
  "minuteLater = \<lparr> clock_cooldown = 1700000060000, clock_end = 1700000060001,
      clock_payload = 1700000060002, clock_fired = 1700000060003,
      db = (\<lambda>_ _ _. Row [SqlNumber 11]), fetch = (\<lambda>_ _ _. Response True),
      numberToString = (\<lambda>_. ''11'') \<rparr>"

definition brokenStore :: env where
  "brokenStore = minuteLater\<lparr>db := \<lambda>_ _ _. QueryThrows\<rparr>"

definition freshEngine :: engine where
  "freshEngine = \<lparr> lastAlertTimes = Map.empty, alert_history = [], queries = [], posts = [] \<rparr>"

definition firedEngine :: engine where
  "firedEngine = freshEngine\<lparr>lastAlertTimes := [''once'' \<mapsto> 1700000000000]\<rparr>"

definition idle :: scheduler where
  "idle = \<lparr> checkInterval = False, isRunning = False, active = [], checked = [],
      eng = freshEngine \<rparr>"

section \<open>Frame decoder (the \<open>data\<close> handler of server/syslog-server.ts)\<close>

text \<open>
  The \<open>data\<close> handler of the TCP server appends the decoded chunk to the connection's
  buffer and runs a \<open>while\<close> loop over the text: a length prefix \<open>/^(\d+)\s/\<close>
  first, then lines split at \<open>/\r?\n/\<close>, then messages split at NUL. It hands each
  message to \<open>processMessage\<close> and stores what remains as the connection's buffer. The
  handler works on the decoded string: a length counts characters of that string, and
  the model's "byte" is one character of it. The source holds two texts of the server;
  this is the handler of the one that knows the length prefix, the other one splits at
  lines and NUL only.
\<close>

abbreviation LF :: char where "LF \<equiv> CHR 0x0A"
abbreviation CR :: char where "CR \<equiv> CHR 0x0D"
abbreviation NUL :: char where "NUL \<equiv> CHR 0x00"

text \<open>\<open>String.prototype.trim\<close>.\<close>

definition trim :: "string \<Rightarrow> string" where
  "trim s = rev (dropWhile isSpace (rev (dropWhile isSpace s)))"

text \<open>
  \<open>remaining.match(/^(\d+)\s/)\<close>: the digits of the first group and the length of the
  whole match. A digit is no white space, so the group is the longest run of digits.
\<close>

definition matchOctet :: "string \<Rightarrow> (string \<times> nat) option" where
  "matchOctet s =
     (let ds = takeWhile isDigit s; rest = dropWhile isDigit s in
      if ds \<noteq> [] \<and> rest \<noteq> [] \<and> isSpace (hd rest) then Some (ds, length ds + 1) else None)"

text \<open>
  \<open>split(/\r?\n/)\<close>: a carriage return belongs to the delimiter only when a line feed
  follows it. \<open>split("\0")\<close> below splits at every NUL.
\<close>

fun splitLines :: "string \<Rightarrow> string list" where
  "splitLines [] = [[]]"
| "splitLines (c # cs) =
     (if c = CR \<and> cs \<noteq> [] \<and> hd cs = LF then [] # splitLines (tl cs)
      else if c = LF then [] # splitLines cs
      else (case splitLines cs of [] \<Rightarrow> [[c]] | l # ls \<Rightarrow> (c # l) # ls))"

fun splitOn :: "char \<Rightarrow> string \<Rightarrow> string list" where
  "splitOn sep [] = [[]]"
| "splitOn sep (c # cs) =
     (if c = sep then [] # splitOn sep cs
      else (case splitOn sep cs of [] \<Rightarrow> [[c]] | l # ls \<Rightarrow> (c # l) # ls))"

text \<open>\<open>substring(i, j)\<close> for \<open>i \<le> j\<close>; indices beyond the end stop at the end.\<close>

definition substring :: "nat \<Rightarrow> nat \<Rightarrow> string \<Rightarrow> string" where
  "substring i j s = take (j - i) (drop i s)"

lemma splitLines_nonempty: "splitLines s \<noteq> []"
  by (induction s rule: splitLines.induct) (auto split: list.splits)

lemma splitOn_nonempty: "splitOn c s \<noteq> []"
  by (induction s) (auto split: list.splits)

lemma length_last_splitLines: "length (last (splitLines s)) \<le> length s"
  by (induction s rule: splitLines.induct) (auto simp: splitLines_nonempty split: list.splits)

lemma length_last_splitLines_less:
  "1 < length (splitLines s) \<Longrightarrow> length (last (splitLines s)) < length s"
proof (induction s rule: splitLines.induct)
  case 1
  then show ?case by simp
next
  case (2 c cs)
  show ?case
  proof (cases "c = CR \<and> cs \<noteq> [] \<and> hd cs = LF")
    case True
    have "length (last (splitLines (tl cs))) \<le> length (tl cs)" by (rule length_last_splitLines)
    with True show ?thesis by (simp add: splitLines_nonempty)
  next
    case False
    note nocr = this
    show ?thesis
    proof (cases "c = LF")
      case True
      have "length (last (splitLines cs)) \<le> length cs" by (rule length_last_splitLines)
      with True nocr show ?thesis by (simp add: splitLines_nonempty)
    next
      case False
      obtain l ls where sp: "splitLines cs = l # ls"
        using splitLines_nonempty [of cs] by (cases "splitLines cs") auto
      with "2.prems" nocr False have "ls \<noteq> []" by auto
      with "2.prems" "2.IH"(3) nocr False sp show ?thesis by auto
    qed
  qed
qed

lemma length_last_splitOn_less:
  "sep \<in> set s \<Longrightarrow> length (last (splitOn sep s)) < length s"
proof (induction s)
  case Nil
  then show ?case by simp
next
  case (Cons c cs)
  have le: "length (last (splitOn sep cs)) \<le> length cs" for cs
    by (induction cs) (auto simp: splitOn_nonempty split: list.splits)
  show ?case
  proof (cases "c = sep")
    case True
    with le [of cs] show ?thesis by (simp add: splitOn_nonempty)
  next
    case False
    obtain l ls where sp: "splitOn sep cs = l # ls"
      using splitOn_nonempty [of sep cs] by (cases "splitOn sep cs") auto
    from False Cons.prems have "sep \<in> set cs" by simp
    from Cons.IH [OF this] False sp show ?thesis 
      by (cases ls) auto
  qed
qed

text \<open>
  The loop of the handler: the text still to decode and the messages handed to
  \<open>processMessage\<close> so far, in order. Its result is those messages and the new buffer.
  Every turn that goes on shortens the text.
\<close>

function loop :: "string \<Rightarrow> string list \<Rightarrow> string list \<times> string" where
  "loop remaining emitted =
     (if remaining = [] then (emitted, remaining)
      else
        (case matchOctet remaining of
           Some (ds, prefixLength) \<Rightarrow>
             let msgLength = digitsValue ds;
                 totalLength = prefixLength + msgLength
             in if length remaining \<ge> totalLength
                then loop (drop totalLength remaining)
                       (emitted @ [substring prefixLength totalLength remaining])
                else (emitted, remaining)
         | None \<Rightarrow>
             let lines = splitLines remaining in
             if length lines > 1
             then loop (last lines)
                    (emitted @ map trim (filter (\<lambda>line. trim line \<noteq> []) (butlast lines)))
             else if NUL \<in> set remaining
             then let messages = splitOn NUL remaining in
                  loop (last messages)
                    (emitted @ map trim (filter (\<lambda>msg. trim msg \<noteq> []) (butlast messages)))
             else (emitted, remaining)))"
  by pat_completeness auto
termination
proof (relation "measure (\<lambda>(remaining, emitted). length remaining)")
  show "wf (measure (\<lambda>(remaining, emitted). length remaining))" by simp
next
  fix remaining :: string and emitted :: "string list" and x2 x y xa xb
  assume "remaining \<noteq> []" "matchOctet remaining = Some x2" "(x, y) = x2"
    "xa = digitsValue x" "xb = y + xa" "xb \<le> length remaining"
  then show "((drop xb remaining, emitted @ [substring y xb remaining]), remaining, emitted)
      \<in> measure (\<lambda>(remaining, emitted). length remaining)"
    by (auto simp: matchOctet_def Let_def split: if_splits)
next
  fix remaining :: string and emitted :: "string list" and x
  assume "remaining \<noteq> []" "x = splitLines remaining" "1 < length x"
  then show "((last x, emitted @ map trim (filter (\<lambda>line. trim line \<noteq> []) (butlast x))), remaining, emitted)
      \<in> measure (\<lambda>(remaining, emitted). length remaining)"
    by (simp add: length_last_splitLines_less)
next
  fix remaining :: string and emitted :: "string list" and x xa
  assume "NUL \<in> set remaining" "xa = splitOn NUL remaining"
  then show "((last xa, emitted @ map trim (filter (\<lambda>msg. trim msg \<noteq> []) (butlast xa))), remaining, emitted)
      \<in> measure (\<lambda>(remaining, emitted). length remaining)"
    by (simp add: length_last_splitOn_less)
qed

text \<open>
  The handler: \<open>existing\<close> is the connection's buffer and \<open>chunk\<close> the text
  \<open>new TextDecoder().decode(data)\<close> of the bytes received.
\<close>

definition onData :: "string \<Rightarrow> string \<Rightarrow> string list \<times> string" where
  "onData existing chunk = loop (existing @ chunk) []"

text \<open>
  The bytes of a text, its UTF-8 encoding: one byte for a character below 128, two for
  the others. \<open>TextDecoder\<close> decodes the bytes \<open>utf8 t\<close> to the text \<open>t\<close>.
\<close>

definition utf8 :: "string \<Rightarrow> string" where
  "utf8 t = concat (map (\<lambda>c. if (of_char c :: nat) < 128 then [c]
                              else [char_of (192 + (of_char c :: nat) div 64),
                                    char_of (128 + (of_char c :: nat) mod 64)]) t)"

text \<open>A text delivered to a new connection in two chunks, cut after \<open>k\<close> characters.\<close>

definition twoChunks :: "string \<Rightarrow> nat \<Rightarrow> string list \<times> string" where
  "twoChunks s k =
     (let (m1, b1) = onData [] (take k s); (m2, b2) = onData b1 (drop k s) in (m1 @ m2, b2))"

section \<open>Syslog parser (src/server/syslog-parser.ts)\<close>

text \<open>
  The numbers of the parser: \<open>NaN\<close>, a double whose value is an integer, or an
  infinity. \<open>nearestDouble v\<close> is the double nearest to a non-negative integer: the
  integer itself below 2^53; from there on the 53 leading binary digits, rounded on the
  digits cut off (a tie to the even significand), and \<open>Infinity\<close> when the rounded
  value reaches 2^1024. The sign of a zero is not kept.
\<close>

datatype jsNumber = NaN | Num int | Infinity | NegInfinity

definition nearestDouble :: "int \<Rightarrow> jsNumber" where
  "nearestDouble v =
     (if v < 2 ^ 53 then Num v
      else let k = nat (bitLength v - 53);
               q = v div 2 ^ k;
               r = v mod 2 ^ k;
               n = (if 2 * r > 2 ^ k \<or> (2 * r = 2 ^ k \<and> odd q) then q + 1 else q)
           in if n * 2 ^ k \<ge> 2 ^ 1024 then Infinity else Num (n * 2 ^ k))"

fun negate :: "jsNumber \<Rightarrow> jsNumber" where
  "negate NaN = NaN"
| "negate (Num p) = Num (- p)"
| "negate Infinity = NegInfinity"
| "negate NegInfinity = Infinity"

text \<open>
  \<open>parseInt(s, 10)\<close> skips leading white space, takes an optional sign and the longest
  run of digits, and gives \<open>NaN\<close> when there is no digit; otherwise its result is the
  double nearest to the signed value of the run (the language lets an engine replace
  the digits after the 20th by zeros first; the engines do not).
\<close>

definition parseInt :: "string \<Rightarrow> jsNumber" where
  "parseInt s =
     (let t = dropWhile isSpace s;
          negative = (t \<noteq> [] \<and> hd t = CHR ''-'');
          u = (if t \<noteq> [] \<and> (hd t = CHR ''-'' \<or> hd t = CHR ''+'') then tl t else t);
          ds = takeWhile isDigit u
      in if ds = [] then NaN
         else if negative then negate (nearestDouble (int (digitsValue ds)))
         else nearestDouble (int (digitsValue ds)))"

text \<open>
  \<open>Math.floor(x / d)\<close> and \<open>x % d\<close> for the divisor 8: the division of an
  integer-valued double by a power of two is exact, the quotient is rounded down, the
  remainder has the sign of the dividend, and \<open>NaN\<close> stays \<open>NaN\<close>. An infinity
  divided is that infinity, and its remainder is \<open>NaN\<close>.
\<close>

fun floorDiv :: "jsNumber \<Rightarrow> int \<Rightarrow> jsNumber" where
  "floorDiv NaN d = NaN"
| "floorDiv (Num p) d = Num (p div d)"
| "floorDiv Infinity d = Infinity"
| "floorDiv NegInfinity d = NegInfinity"

fun remainder :: "jsNumber \<Rightarrow> int \<Rightarrow> jsNumber" where
  "remainder NaN d = NaN"
| "remainder (Num p) d = Num (if p < 0 then - ((- p) mod d) else p mod d)"
| "remainder Infinity d = NaN"
| "remainder NegInfinity d = NaN"

text \<open>
  String methods. \<open>indexOf\<close> is -1 when the character is absent. \<open>parts[i]\<close> is
  \<open>undefined\<close> beyond the end of the array: a value that may be \<open>undefined\<close> is an
  \<open>option\<close>, \<open>truthy\<close> is its test in a condition (the empty string is falsy as
  well) and \<open>orElse v d\<close> is \<open>v || d\<close>.
\<close>

definition startsWith :: "string \<Rightarrow> string \<Rightarrow> bool" where
  "startsWith p s = (take (length p) s = p)"

definition endsWith :: "string \<Rightarrow> string \<Rightarrow> bool" where
  "endsWith p s = (length p \<le> length s \<and> drop (length s - length p) s = p)"

definition indexOf :: "char \<Rightarrow> string \<Rightarrow> int" where
  "indexOf c s = (if c \<in> set s then int (length (takeWhile (\<lambda>x. x \<noteq> c) s)) else - 1)"

definition elemAt :: "'a list \<Rightarrow> nat \<Rightarrow> 'a option" where
  "elemAt xs i = (if i < length xs then Some (xs ! i) else None)"

definition truthy :: "string option \<Rightarrow> bool" where
  "truthy v = (case v of None \<Rightarrow> False | Some s \<Rightarrow> s \<noteq> [])"

definition orElse :: "string option \<Rightarrow> string \<Rightarrow> string" where
  "orElse v d = (if truthy v then the v else d)"

fun join :: "string \<Rightarrow> string list \<Rightarrow> string" where
  "join sep [] = []"
| "join sep [x] = x"
| "join sep (x # y # ys) = x @ sep @ join sep (y # ys)"

text \<open>
  The parsed message. A \<open>Record\<close> is the list of its entries in the order of their
  first insertion, a later value for a key replacing the earlier one.
\<close>

record SyslogMessage =
  facility :: jsNumber
  severity :: jsNumber
  version :: "nat option"
  timestamp :: jsDate
  hostname :: string
  appName :: string
  procId :: "string option"
  msgId :: "string option"
  structuredData :: "(string \<times> (string \<times> string) list) list option"
  message :: string
  raw :: string

text \<open>
  What a call of \<open>parse\<close> takes from outside: the clock (\<open>new Date()\<close> and the text
  of \<open>new Date().getFullYear()\<close>) and the engine's \<open>new Date(string)\<close>, which gives
  the invalid date for a text it cannot read.
\<close>

record parserEnv =
  clock_now :: int
  clock_year :: string
  dateParse :: "string \<Rightarrow> jsDate"

definition parseTimestamp :: "parserEnv \<Rightarrow> string \<Rightarrow> jsDate" where
  "parseTimestamp pe ts =
     (if ts = ''-'' then ValidDate (clock_now pe)
      else (case dateParse pe ts of
              InvalidDate \<Rightarrow> ValidDate (clock_now pe)
            | ValidDate v \<Rightarrow> ValidDate v))"

text \<open>
  \<open>parseSDParams\<close> runs the global expression \<open>/\s+([^=]+)="([^"]*)"/g\<close> over the
  parameters. A match at a position of white space takes the white space, then as key
  everything up to the next \<open>=\<close>, then \<open>="\<close>, the value up to the next quote and the
  quote. The key may hold white space; when \<open>=\<close> follows the white space at once, the
  last white-space character is the key, which needs two of them. \<open>execSDParamAt\<close> is
  the match at the start of its argument, \<open>execSDParam\<close> the leftmost match: key, value
  and the text after the match, where the next search starts.
\<close>

definition execSDParamAt :: "string \<Rightarrow> (string \<times> string \<times> string) option" where
  "execSDParamAt s =
     (let a = length (takeWhile isSpace s);
          after = drop a s
      in if CHR ''='' \<notin> set after then None
         else
           let keyRun = takeWhile (\<lambda>c. c \<noteq> CHR ''='') after;
               key = (if keyRun \<noteq> [] then keyRun else [s ! (a - 1)]);
               tail = drop (length keyRun + 1) after
           in if keyRun = [] \<and> a < 2 then None
              else (case tail of
                      [] \<Rightarrow> None
                    | q # t \<Rightarrow>
                        if q = CHR 0x22 \<and> CHR 0x22 \<in> set t
                        then Some (key, takeWhile (\<lambda>c. c \<noteq> CHR 0x22) t,
                                   tl (dropWhile (\<lambda>c. c \<noteq> CHR 0x22) t))
                        else None))"

fun execSDParam :: "string \<Rightarrow> (string \<times> string \<times> string) option" where
  "execSDParam [] = None"
| "execSDParam (c # cs) =
     (if isSpace c
      then (case execSDParamAt (c # cs) of Some r \<Rightarrow> Some r | None \<Rightarrow> execSDParam cs)
      else execSDParam cs)"

lemma execSDParamAt_shorter:
  "execSDParamAt s = Some (k, v, rest) \<Longrightarrow> length rest < length s"
proof -
  assume a: "execSDParamAt s = Some (k, v, rest)"
  let ?a = "length (takeWhile isSpace s)"
  let ?after = "drop ?a s"
  let ?keyRun = "takeWhile (\<lambda>c. c \<noteq> CHR ''='') ?after"
  let ?tail = "drop (length ?keyRun + 1) ?after"
  from a obtain q t where t: "?tail = q # t" and r: "rest = tl (dropWhile (\<lambda>c. c \<noteq> CHR 0x22) t)"
    by (auto simp: execSDParamAt_def Let_def split: if_splits list.splits)
  have "length rest \<le> length t" unfolding r
    by (metis diff_le_self le_trans length_dropWhile_le length_tl)
  also have "length t < length ?tail" using t by simp
  also have "\<dots> \<le> length s" by simp
  finally show ?thesis .
qed

lemma execSDParam_shorter:
  "execSDParam s = Some (k, v, rest) \<Longrightarrow> length rest < length s"
proof (induction s)
  case Nil
  then show ?case by simp
next
  case (Cons c cs)
  show ?case
  proof (cases "isSpace c \<and> execSDParamAt (c # cs) \<noteq> None")
    case True
    with Cons.prems have "execSDParamAt (c # cs) = Some (k, v, rest)" by auto
    then show ?thesis by (rule execSDParamAt_shorter)
  next
    case False
    with Cons.prems have "execSDParam cs = Some (k, v, rest)" by (auto split: option.splits)
    from Cons.IH [OF this] show ?thesis by simp
  qed
qed

fun setKey :: "string \<Rightarrow> 'v \<Rightarrow> (string \<times> 'v) list \<Rightarrow> (string \<times> 'v) list" where
  "setKey k v [] = [(k, v)]"
| "setKey k v ((k', v') # kvs) = (if k' = k then (k, v) # kvs else (k', v') # setKey k v kvs)"

function parseSDParamsFrom :: "string \<Rightarrow> (string \<times> string) list \<Rightarrow> (string \<times> string) list" where
  "parseSDParamsFrom s result =
     (case execSDParam s of
        None \<Rightarrow> result
      | Some (key, val, rest) \<Rightarrow> parseSDParamsFrom rest (setKey key val result))"
  by pat_completeness auto
termination
  by (relation "measure (\<lambda>(s, result). length s)") (auto dest: execSDParam_shorter)

definition parseSDParams :: "string \<Rightarrow> (string \<times> string) list" where
  "parseSDParams params = parseSDParamsFrom params []"

text \<open>
  \<open>currentSD.match(/\[([^\s]+)([^\]]*)\]/)\<close>: at the first \<open>[\<close> where it
  succeeds, the identifier is the longest run without white space after the bracket that
  still leaves a \<open>]\<close> behind it, and the parameters run up to the next \<open>]\<close>.
\<close>

definition matchSDAt :: "string \<Rightarrow> (string \<times> string) option" where
  "matchSDAt cs =
     (if CHR '']'' \<notin> set cs then None
      else
        let lastClose = length cs - 1 - length (takeWhile (\<lambda>c. c \<noteq> CHR '']'') (rev cs));
            k = min (length (takeWhile (\<lambda>c. \<not> isSpace c) cs)) lastClose
        in if k \<ge> 1
           then Some (take k cs, takeWhile (\<lambda>c. c \<noteq> CHR '']'') (drop k cs))
           else None)"

fun matchSD :: "string \<Rightarrow> (string \<times> string) option" where
  "matchSD [] = None"
| "matchSD (c # cs) =
     (if c = CHR ''[''
      then (case matchSDAt cs of Some r \<Rightarrow> Some r | None \<Rightarrow> matchSD cs)
      else matchSD cs)"


text \<open>
  \<open>parseStructuredData\<close>: the \<open>for\<close> loop over the parts from \<open>startIndex\<close>, with
  its variables \<open>result\<close>, \<open>currentSD\<close> and \<open>inSD\<close>. \<open>sdAppend\<close> is the first
  \<open>if\<close> of the body and \<open>sdStore\<close> the assignment to \<open>result\<close>. A method called on
  \<open>undefined\<close> throws a \<open>TypeError\<close>; the two calls of \<open>startsWith\<close> on an element
  of the array are such calls, each behind a test of the element.
\<close>

type_synonym sdRecord = "(string \<times> (string \<times> string) list) list"

definition sdAppend :: "string \<Rightarrow> bool \<Rightarrow> string \<Rightarrow> string \<times> bool" where
  "sdAppend currentSD inSD part =
     (if startsWith ''['' part \<and> \<not> inSD then (part, True)
      else if inSD then (currentSD @ '' '' @ part, inSD)
      else (currentSD, inSD))"

definition sdStore :: "string \<Rightarrow> sdRecord \<Rightarrow> sdRecord" where
  "sdStore currentSD result =
     (case matchSD currentSD of
        Some (sdId, params) \<Rightarrow> setKey sdId (parseSDParams params) result
      | None \<Rightarrow> result)"

function sdLoop :: "string list \<Rightarrow> nat \<Rightarrow> sdRecord \<Rightarrow> string \<Rightarrow> bool \<Rightarrow> error + sdRecord" where
  "sdLoop parts i result currentSD inSD =
     (if i < length parts then
        if \<not> truthy (elemAt parts i) then sdLoop parts (i + 1) result currentSD inSD
        else
          (case elemAt parts i of
             None \<Rightarrow> Inl TypeError
           | Some part \<Rightarrow>
               if snd (sdAppend currentSD inSD part)
                  \<and> endsWith '']'' (fst (sdAppend currentSD inSD part))
               then
                 if i + 1 < length parts \<and> truthy (elemAt parts (i + 1))
                 then (case elemAt parts (i + 1) of
                         None \<Rightarrow> Inl TypeError
                       | Some nextPart \<Rightarrow>
                           if startsWith ''['' nextPart
                           then sdLoop parts (i + 1)
                                  (sdStore (fst (sdAppend currentSD inSD part)) result) [] False
                           else Inr (sdStore (fst (sdAppend currentSD inSD part)) result))
                 else Inr (sdStore (fst (sdAppend currentSD inSD part)) result)
               else sdLoop parts (i + 1) result
                      (fst (sdAppend currentSD inSD part)) (snd (sdAppend currentSD inSD part)))
      else Inr result)"
  by pat_completeness auto
termination
  by (relation "measure (\<lambda>(parts, i, result, currentSD, inSD). length parts - i)") auto

definition parseStructuredData :: "string list \<Rightarrow> nat \<Rightarrow> error + sdRecord option" where
  "parseStructuredData parts startIndex =
     (case sdLoop parts startIndex [] [] False of
        Inl e \<Rightarrow> Inl e
      | Inr result \<Rightarrow> Inr (if length result > 0 then Some result else None))"

text \<open>
  \<open>findMessageStart\<close>: \<open>part?.endsWith("]")\<close> is false for an \<open>undefined\<close> part;
  \<open>nextPart.startsWith\<close> is called once \<open>!nextPart\<close> has been found false.
\<close>

function findMessageStart :: "string list \<Rightarrow> nat \<Rightarrow> error + nat" where
  "findMessageStart parts i =
     (if i < length parts then
        if (case elemAt parts i of None \<Rightarrow> False | Some part \<Rightarrow> endsWith '']'' part)
        then
          if i + 1 \<ge> length parts \<or> \<not> truthy (elemAt parts (i + 1)) then Inr (i + 1)
          else (case elemAt parts (i + 1) of
                  None \<Rightarrow> Inl TypeError
                | Some nextPart \<Rightarrow>
                    if \<not> startsWith ''['' nextPart then Inr (i + 1)
                    else findMessageStart parts (i + 1))
        else findMessageStart parts (i + 1)
      else Inr (length parts))"
  by pat_completeness auto
termination
  by (relation "measure (\<lambda>(parts, i). length parts - i)") auto

text \<open>
  \<open>parseRFC5424\<close>. The structured data is read when
  \<open>parts[5] && parts[5] !== "-" && parts[5].startsWith("[")\<close>; otherwise the message
  starts at part 6.
\<close>

definition parseRFC5424 ::
  "parserEnv \<Rightarrow> string \<Rightarrow> jsNumber \<Rightarrow> jsNumber \<Rightarrow> string \<Rightarrow> error + SyslogMessage" where
  "parseRFC5424 pe rawText fac sev content =
     (let parts = splitOn (CHR '' '') content;
          ts = parseTimestamp pe (orElse (elemAt parts 0) ''-'');
          host = orElse (elemAt parts 1) ''-'';
          app = orElse (elemAt parts 2) ''-'';
          pid = (if elemAt parts 3 = Some ''-'' then None else elemAt parts 3);
          mid = (if elemAt parts 4 = Some ''-'' then None else elemAt parts 4)
      in case (if truthy (elemAt parts 5) \<and> elemAt parts 5 \<noteq> Some ''-''
               then (case elemAt parts 5 of
                       None \<Rightarrow> Inl TypeError
                     | Some p5 \<Rightarrow>
                         if startsWith ''['' p5
                         then (case parseStructuredData parts 5 of
                                 Inl e \<Rightarrow> Inl e
                               | Inr sd \<Rightarrow>
                                   (case findMessageStart parts 5 of
                                      Inl e \<Rightarrow> Inl e
                                    | Inr messageStart \<Rightarrow> Inr (sd, messageStart)))
                         else Inr (None, 6))
               else Inr (None, 6)) of
           Inl e \<Rightarrow> Inl e
         | Inr (sd, messageStart) \<Rightarrow>
             Inr \<lparr> facility = fac, severity = sev, version = Some 1, timestamp = ts,
                   hostname = host, appName = app, procId = pid, msgId = mid,
                   structuredData = sd,
                   message = trim (join '' '' (drop messageStart parts)),
                   raw = rawText \<rparr>)"

text \<open>
  \<open>content.match(/^([A-Z][a-z]{2}\s+\d{1,2}\s+\d{2}:\d{2}:\d{2})\s+/)\<close>: the text of
  the first group and the length of the whole match. The runs of white space and of digits
  are the longest ones, since what must follow each is of another class.
\<close>

definition isUpper :: "char \<Rightarrow> bool" where
  "isUpper c = (c \<in> set ''ABCDEFGHIJKLMNOPQRSTUVWXYZ'')"

definition isLower :: "char \<Rightarrow> bool" where
  "isLower c = (c \<in> set ''abcdefghijklmnopqrstuvwxyz'')"

definition isClock :: "string \<Rightarrow> bool" where
  "isClock c =
     (case c of
        [h1, h2, c1, m1, m2, c2, s1, s2] \<Rightarrow>
          isDigit h1 \<and> isDigit h2 \<and> c1 = CHR '':'' \<and> isDigit m1 \<and> isDigit m2
          \<and> c2 = CHR '':'' \<and> isDigit s1 \<and> isDigit s2
      | _ \<Rightarrow> False)"

definition matchTimestamp :: "string \<Rightarrow> (string \<times> nat) option" where
  "matchTimestamp s =
     (case s of
        u # l1 # l2 # r1 \<Rightarrow>
          let w1 = takeWhile isSpace r1; r2 = dropWhile isSpace r1;
              day = takeWhile isDigit r2; r3 = dropWhile isDigit r2;
              w2 = takeWhile isSpace r3; r4 = dropWhile isSpace r3;
              clock = take 8 r4; r5 = drop 8 r4;
              w3 = takeWhile isSpace r5
          in if isUpper u \<and> isLower l1 \<and> isLower l2 \<and> w1 \<noteq> []
                \<and> (length day = 1 \<or> length day = 2) \<and> w2 \<noteq> [] \<and> isClock clock \<and> w3 \<noteq> []
             then Some ([u, l1, l2] @ w1 @ day @ w2 @ clock,
                        3 + length w1 + length day + length w2 + 8 + length w3)
             else None
      | _ \<Rightarrow> None)"

text \<open>
  \<open>remaining.match(/^([^\s]+)\s+([^[\s]+)(?:\[(\d+)\])?:\s*(.*)/s)\<close>: host, tag,
  optional process id and message. The tag is the whole run up to a \<open>[\<close> or white space
  when \<open>[digits]:\<close> follows it (\<open>matchPid\<close>); otherwise it ends before the last colon of
  that run, which must not be its first character.
\<close>

definition matchPid :: "string \<Rightarrow> (string \<times> string) option" where
  "matchPid s =
     (case s of
        [] \<Rightarrow> None
      | b # t \<Rightarrow>
          let ds = takeWhile isDigit t; u = dropWhile isDigit t in
          if b = CHR ''['' \<and> ds \<noteq> [] \<and> take 2 u = '']:'' then Some (ds, drop 2 u) else None)"

definition matchHostApp :: "string \<Rightarrow> (string \<times> string \<times> string option \<times> string) option" where
  "matchHostApp s =
     (let g1 = takeWhile (\<lambda>c. \<not> isSpace c) s; r1 = dropWhile (\<lambda>c. \<not> isSpace c) s;
          w = takeWhile isSpace r1; r2 = dropWhile isSpace r1;
          tag = takeWhile (\<lambda>c. c \<noteq> CHR ''['' \<and> \<not> isSpace c) r2;
          r3 = dropWhile (\<lambda>c. c \<noteq> CHR ''['' \<and> \<not> isSpace c) r2
      in if g1 = [] \<or> w = [] \<or> tag = [] then None
         else (case matchPid r3 of
                 Some (pid, rest) \<Rightarrow> Some (g1, tag, Some pid, dropWhile isSpace rest)
               | None \<Rightarrow>
                   if CHR '':'' \<in> set (tl tag)
                   then let k = length tag - 1 - length (takeWhile (\<lambda>c. c \<noteq> CHR '':'') (rev tag))
                        in Some (g1, take k tag, None, dropWhile isSpace (drop (k + 1) r2))
                   else None))"

text \<open>
  \<open>parseRFC3164\<close>. The timestamp of a matched prefix is \<open>new Date\<close> of the prefix and
  the current year, kept even when it is the invalid date.
\<close>

definition parseRFC3164 ::
  "parserEnv \<Rightarrow> string \<Rightarrow> jsNumber \<Rightarrow> jsNumber \<Rightarrow> string \<Rightarrow> SyslogMessage" where
  "parseRFC3164 pe rawText fac sev content =
     (let (ts, remaining) =
            (case matchTimestamp content of
               Some (stamp, len) \<Rightarrow> (dateParse pe (stamp @ '' '' @ clock_year pe), drop len content)
             | None \<Rightarrow> (ValidDate (clock_now pe), content))
      in case matchHostApp remaining of
           Some (host, tag, pid, msg) \<Rightarrow>
             \<lparr> facility = fac, severity = sev, version = None, timestamp = ts,
               hostname = strOr host ''-'', appName = strOr tag ''-'', procId = pid,
               msgId = None, structuredData = None, message = msg, raw = rawText \<rparr>
         | None \<Rightarrow>
             \<lparr> facility = fac, severity = sev, version = None, timestamp = ts,
               hostname = ''-'', appName = ''-'', procId = None,
               msgId = None, structuredData = None, message = remaining, raw = rawText \<rparr>)"

text \<open>
  \<open>SyslogParser.parse\<close>: the record, or the error thrown. The text is trimmed first;
  the fallback record at the end is reached when the trimmed text does not start with
  \<open><\<close> or \<open>indexOf(">")\<close> is not positive.
\<close>

definition parse :: "parserEnv \<Rightarrow> string \<Rightarrow> error + SyslogMessage" where
  "parse pe text =
     (let rawMessage = trim text; priEnd = indexOf (CHR ''>'') rawMessage in
      if startsWith ''<'' rawMessage \<and> priEnd > 0 then
        let priValue = parseInt (substring 1 (nat priEnd) rawMessage);
            fac = floorDiv priValue 8;
            sev = remainder priValue 8;
            messageContent = trim (drop (nat priEnd + 1) rawMessage)
        in if startsWith ''1 '' messageContent
           then parseRFC5424 pe rawMessage fac sev (drop 2 messageContent)
           else Inr (parseRFC3164 pe rawMessage fac sev messageContent)
      else Inr \<lparr> facility = Num 16, severity = Num 6, version = None,
                 timestamp = ValidDate (clock_now pe), hostname = ''-'', appName = ''-'',
                 procId = None, msgId = None, structuredData = None,
                 message = rawMessage, raw = rawMessage \<rparr>)"

definition syslogEnv :: parserEnv where
  "syslogEnv = \<lparr> clock_now = 1700000000000, clock_year = ''2023'',
      dateParse = (\<lambda>s. if s = ''2023-11-14T22:13:20Z'' then ValidDate 1700000000000
                         else InvalidDate) \<rparr>"

section \<open>Threshold comparison\<close>

text \<open>
  Claim C5. For every count and threshold the threshold check is \<open>count > threshold\<close>
  for \<open>gt\<close>, \<open>count \<ge> threshold\<close> for \<open>gte\<close>, \<open>count < threshold\<close> for \<open>lt\<close>,
  \<open>count \<le> threshold\<close> for \<open>lte\<close>, \<open>count = threshold\<close> for \<open>eq\<close>, and false for
  every other operator string; with count 10 and threshold 10, \<open>gte\<close> fires and
  \<open>gt\<close> does not.
\<close>

theorem checkThreshold_operators:
  "checkThreshold c t ''gt'' = (c > t)
   \<and> checkThreshold c t ''gte'' = (c \<ge> t)
   \<and> checkThreshold c t ''lt'' = (c < t)
   \<and> checkThreshold c t ''lte'' = (c \<le> t)
   \<and> checkThreshold c t ''eq'' = (c = t)
   \<and> (oper \<notin> {''gt'', ''gte'', ''lt'', ''lte'', ''eq''} \<longrightarrow> \<not> checkThreshold c t oper)
   \<and> checkThreshold 10 10 ''gte''
   \<and> \<not> checkThreshold 10 10 ''gt''"
  by (simp add: checkThreshold_def)

theorem checkThreshold_operators_witness:
  "''neq'' \<notin> {''gt'', ''gte'', ''lt'', ''lte'', ''eq''}
   \<and> \<not> checkThreshold 11 10 ''neq''
   \<and> checkThreshold 11 10 ''gt'' \<and> \<not> checkThreshold 11 10 ''lte''"
  using checkThreshold_operators [of 11 10 "''neq''"] by simp

section \<open>Severity of a webhook payload\<close>

subsection \<open>Rounding to the nearest double\<close>

lemma bitLength_pos: "0 < n \<Longrightarrow> 1 \<le> bitLength n"
proof -
  assume "0 < n"
  then have "bitLength n = 1 + bitLength (n div 2)" by (subst bitLength.simps) simp
  moreover have "0 \<le> bitLength m" for m
    by (induction m rule: bitLength.induct) (subst bitLength.simps, simp)
  ultimately show ?thesis using \<open>0 \<le> bitLength (n div 2)\<close> by linarith
qed

lemma bitLength_nonneg: "0 \<le> bitLength m"
  by (induction m rule: bitLength.induct) (subst bitLength.simps, simp)

lemma bitLength_lower: "0 < n \<Longrightarrow> 2 ^ nat (bitLength n - 1) \<le> n"
proof (induction n rule: bitLength.induct)
  case (1 n)
  show ?case
  proof (cases "n = 1")
    case True
    have "bitLength 1 = 1" by (subst bitLength.simps, subst bitLength.simps) simp
    with True show ?thesis by simp
  next
    case False
    with "1.prems" have h: "0 < n div 2" by simp
    have eq: "bitLength n = 1 + bitLength (n div 2)"
      using "1.prems" by (subst bitLength.simps) simp
    have ih: "2 ^ nat (bitLength (n div 2) - 1) \<le> n div 2"
      using "1.IH" "1.prems" h by simp
    have p: "1 \<le> bitLength (n div 2)" using h by (rule bitLength_pos)
    have "nat (bitLength n - 1) = Suc (nat (bitLength (n div 2) - 1))"
      using eq p by simp
    then have "(2::int) ^ nat (bitLength n - 1) = 2 * 2 ^ nat (bitLength (n div 2) - 1)"
      by simp
    also have "\<dots> \<le> 2 * (n div 2)" using ih by simp
    also have "\<dots> \<le> n" by simp
    finally show ?thesis .
  qed
qed

lemma bitLength_upper: "0 \<le> n \<Longrightarrow> n < 2 ^ nat (bitLength n)"
proof (induction n rule: bitLength.induct)
  case (1 n)
  show ?case
  proof (cases "n = 0")
    case True
    then show ?thesis by simp
  next
    case False
    with "1.prems" have pos: "0 < n" by simp
    have eq: "bitLength n = 1 + bitLength (n div 2)"
      using pos by (subst bitLength.simps) simp
    have ih: "n div 2 < 2 ^ nat (bitLength (n div 2))"
      using "1.IH" pos by simp
    have "nat (bitLength n) = Suc (nat (bitLength (n div 2)))"
      using eq bitLength_nonneg [of "n div 2"] by simp
    then have "(2::int) ^ nat (bitLength n) = 2 * 2 ^ nat (bitLength (n div 2))" by simp
    moreover have "n < 2 * (n div 2 + 1)" by simp
    moreover have "n div 2 + 1 \<le> 2 ^ nat (bitLength (n div 2))" using ih by simp
    ultimately show ?thesis by linarith
  qed
qed

lemma roundHalfEven_ge_even:
  assumes "even k"
  shows "(k \<le> roundHalfEven m) = (of_int k - 1 / 2 \<le> m)"
proof -
  let ?f = "\<lfloor>m\<rfloor>"
  have fl: "of_int ?f \<le> m" "m < of_int ?f + 1" by linarith+
  consider "k \<le> ?f" | "?f = k - 1" | "?f < k - 1" by linarith
  then show ?thesis
  proof cases
    case 1
    then have "of_int k \<le> m" by (simp add: le_floor_iff)
    moreover have "?f \<le> roundHalfEven m" by (simp add: roundHalfEven_def Let_def)
    ultimately show ?thesis using 1 by linarith
  next
    case 2
    then have odd: "odd ?f" using assms by simp
    have "m - of_int ?f = m - of_int k + 1" using 2 by simp
    then show ?thesis using 2 odd by (auto simp: roundHalfEven_def Let_def)
  next
    case 3
    then have "?f + 1 \<le> k - 1" by simp
    then have "of_int (?f + 1) \<le> (of_int (k - 1) :: real)" by (simp only: of_int_le_iff)
    then have "of_int ?f + 1 \<le> (of_int k :: real) - 1" by simp
    then have "m < of_int k - 1 / 2" using fl(2) by linarith
    moreover have "roundHalfEven m \<le> ?f + 1" by (simp add: roundHalfEven_def Let_def)
    ultimately show ?thesis using 3 by linarith
  qed
qed

lemma roundHalfEven_le: "m \<le> of_int k \<Longrightarrow> roundHalfEven m \<le> k"
proof -
  assume a: "m \<le> of_int k"
  show ?thesis
  proof (cases "m = of_int k")
    case True
    then show ?thesis by (simp add: roundHalfEven_def Let_def)
  next
    case False
    with a have "m < of_int k" by simp
    then have "\<lfloor>m\<rfloor> < k" by (simp add: floor_less_iff)
    moreover have "roundHalfEven m \<le> \<lfloor>m\<rfloor> + 1" by (simp add: roundHalfEven_def Let_def)
    ultimately show ?thesis by linarith
  qed
qed

lemma roundHalfEven_ge: "of_int k \<le> m \<Longrightarrow> k \<le> roundHalfEven m"
proof -
  assume "of_int k \<le> m"
  then have "k \<le> \<lfloor>m\<rfloor>" by (simp add: le_floor_iff)
  moreover have "\<lfloor>m\<rfloor> \<le> roundHalfEven m" by (simp add: roundHalfEven_def Let_def)
  ultimately show ?thesis by linarith
qed


lemma bitLength_1: "bitLength 1 = 1"
  by (subst bitLength.simps, subst bitLength.simps) simp

lemma exponentOf_unit: "1 \<le> x \<Longrightarrow> x < 2 \<Longrightarrow> exponentOf x = 0"
proof -
  assume "1 \<le> x" "x < 2"
  then have "\<lfloor>x\<rfloor> = 1" by linarith
  with \<open>1 \<le> x\<close> show ?thesis by (simp add: exponentOf_def bitLength_1)
qed

lemma exponentOf_large:
  assumes "2 \<le> x"
  shows "1 \<le> exponentOf x \<and> 2 powi (exponentOf x) \<le> x"
proof -
  let ?n = "\<lfloor>x\<rfloor>"
  from assms have n: "2 \<le> ?n" by linarith
  have e: "exponentOf x = bitLength ?n - 1" using assms by (simp add: exponentOf_def)
  have up: "?n < 2 ^ nat (bitLength ?n)" using n by (intro bitLength_upper) simp
  have "2 \<le> bitLength ?n"
  proof (rule ccontr)
    assume "\<not> 2 \<le> bitLength ?n"
    then have "nat (bitLength ?n) \<le> 1" by simp
    then have "(2::int) ^ nat (bitLength ?n) \<le> 2 ^ 1" by (intro power_increasing) simp_all
    then have "(2::int) ^ nat (bitLength ?n) \<le> 2" by (simp only: power_one_right)
    with up n show False by linarith
  qed
  then have one: "1 \<le> exponentOf x" using e by simp
  have "2 ^ nat (bitLength ?n - 1) \<le> ?n" using n by (intro bitLength_lower) simp
  then have "(of_int (2 ^ nat (bitLength ?n - 1)) :: real) \<le> of_int ?n"
    by (simp only: of_int_le_iff)
  then have "(2::real) ^ nat (bitLength ?n - 1) \<le> x" by (simp add: le_floor_iff)
  moreover have "(2::real) powi (exponentOf x) = 2 ^ nat (bitLength ?n - 1)"
    using one e by (simp add: power_int_nonneg_exp)
  ultimately show ?thesis using one by simp
qed

lemma exponentOf_small:
  assumes "0 < x" and "x < 1"
  shows "exponentOf x \<le> - 1 \<and> x < 2 powi (exponentOf x + 1)"
proof -
  let ?m = "\<lceil>1 / x\<rceil> - 1"
  from assms have big: "1 < 1 / x" by simp
  then have m: "1 \<le> ?m" by linarith
  have e: "exponentOf x = - bitLength ?m" using assms by (simp add: exponentOf_def)
  have b: "1 \<le> bitLength ?m" using m by (intro bitLength_pos) simp
  have "2 ^ nat (bitLength ?m - 1) \<le> ?m" using m by (intro bitLength_lower) simp
  then have "(of_int (2 ^ nat (bitLength ?m - 1)) :: real) \<le> of_int ?m"
    by (simp only: of_int_le_iff)
  moreover have "of_int ?m < 1 / x" by linarith
  ultimately have lt: "(2::real) ^ nat (bitLength ?m - 1) < 1 / x" by simp
  have pos: "(0::real) < 2 ^ nat (bitLength ?m - 1)" by simp
  from lt assms(1) pos have "x < 1 / 2 ^ nat (bitLength ?m - 1)"
    by (simp add: field_simps)
  moreover have "(2::real) powi (exponentOf x + 1) = 1 / 2 ^ nat (bitLength ?m - 1)"
  proof -
    have "exponentOf x + 1 = - (bitLength ?m - 1)" using e by simp
    then have "(2::real) powi (exponentOf x + 1) = 1 / (2 powi (bitLength ?m - 1))"
      by (simp only: power_int_minus_divide)
    also have "(2::real) powi (bitLength ?m - 1) = 2 ^ nat (bitLength ?m - 1)"
      using b by (simp add: power_int_nonneg_exp)
    finally show ?thesis .
  qed
  ultimately show ?thesis using e b by simp
qed

lemma doubleOverflow_gt: "r \<le> 2 \<Longrightarrow> \<not> doubleOverflow \<le> r"
proof -
  assume "r \<le> 2"
  moreover have "(2::real) ^ 1 < 2 ^ 1024" by (rule power_strict_increasing) simp_all
  then have "(2::real) < 2 ^ 1024" by (simp only: power_one_right)
  ultimately show ?thesis unfolding doubleOverflow_def by linarith
qed

lemma roundDouble_pos:
  assumes "0 < x" and "e = max (exponentOf x) (- 1022)"
    and "r = of_int (roundHalfEven (x / 2 powi (e - 52))) * 2 powi (e - 52)"
  shows "roundDouble x = (if doubleOverflow \<le> r then PlusInfinity else Finite r)"
  using assms by (simp add: roundDouble_def Let_def)

lemma roundHalfEven_nonneg: "0 \<le> m \<Longrightarrow> 0 \<le> roundHalfEven m"
  using roundHalfEven_ge [of 0 m] by simp

lemma roundDouble_nonpos: "x \<le> 0 \<Longrightarrow> 0 < K \<Longrightarrow> \<not> jsGe (roundDouble x) K"
proof -
  assume x: "x \<le> 0" and K: "0 < K"
  show ?thesis
  proof (cases "x = 0")
    case True
    with K show ?thesis by (simp add: roundDouble_def)
  next
    case False
    with x have neg: "x < 0" by simp
    let ?u = "(2::real) powi (max (exponentOf \<bar>x\<bar>) (- 1022) - 52)"
    have u: "0 < ?u" by simp
    have "0 \<le> \<bar>x\<bar> / ?u" using u by simp
    then have "0 \<le> roundHalfEven (\<bar>x\<bar> / ?u)" by (rule roundHalfEven_nonneg)
    then have "0 \<le> of_int (roundHalfEven (\<bar>x\<bar> / ?u)) * ?u" using u by simp
    with neg K show ?thesis by (simp add: roundDouble_def Let_def)
  qed
qed

lemma roundDouble_below_one:
  assumes "0 < x" and "x < 1" and "1 < K"
  shows "\<not> jsGe (roundDouble x) K"
proof -
  define e where "e = max (exponentOf x) (- 1022)"
  define u where "u = (2::real) powi (e - 52)"
  define r where "r = of_int (roundHalfEven (x / u)) * u"
  from exponentOf_small [OF assms(1,2)]
  have e1: "exponentOf x \<le> - 1" and lt: "x < 2 powi (exponentOf x + 1)" by simp_all
  have e: "e \<le> - 1" using e1 by (simp add: e_def)
  have "(2::real) powi (exponentOf x + 1) \<le> 2 powi (e + 1)"
    by (intro power_int_increasing) (simp_all add: e_def)
  with lt have xlt: "x < 2 powi (e + 1)" by simp
  have u: "0 < u" by (simp add: u_def)
  have eq: "e + 1 = 53 + (e - 52)" by linarith
  have "(2::real) powi (53 + (e - 52)) = 2 powi 53 * 2 powi (e - 52)"
    by (rule power_int_add) simp
  then have split: "(2::real) powi (e + 1) = 2 ^ 53 * u"
    unfolding u_def by (simp only: eq [symmetric] power_int_numeral)
  have "x < 2 ^ 53 * u" using xlt split by simp
  then have "x / u \<le> 2 ^ 53" using u by (simp add: field_simps)
  then have "x / u \<le> of_int (2 ^ 53)" by simp
  then have "roundHalfEven (x / u) \<le> 2 ^ 53" by (rule roundHalfEven_le)
  then have "(of_int (roundHalfEven (x / u)) :: real) \<le> of_int (2 ^ 53)"
    by (simp only: of_int_le_iff)
  then have "r \<le> 2 ^ 53 * u" using u by (simp add: r_def)
  also have "\<dots> = 2 powi (e + 1)" using split by simp
  also have "\<dots> \<le> 2 powi 0" using e by (intro power_int_increasing) simp_all
  finally have r1: "r \<le> 1" by simp
  then have "\<not> doubleOverflow \<le> r" by (intro doubleOverflow_gt) simp
  moreover have "roundDouble x = (if doubleOverflow \<le> r then PlusInfinity else Finite r)"
    using assms(1) e_def by (rule roundDouble_pos) (simp add: r_def u_def)
  ultimately show ?thesis using r1 assms(3) by simp
qed

lemma roundDouble_above_two:
  assumes "2 \<le> x" and "K \<le> 2"
  shows "jsGe (roundDouble x) K"
proof -
  define e where "e = max (exponentOf x) (- 1022)"
  define u where "u = (2::real) powi (e - 52)"
  define r where "r = of_int (roundHalfEven (x / u)) * u"
  from exponentOf_large [OF assms(1)]
  have e1: "1 \<le> exponentOf x" and le: "2 powi (exponentOf x) \<le> x" by simp_all
  have emax: "e = exponentOf x" using e1 by (simp add: e_def)
  have u: "0 < u" by (simp add: u_def)
  have eq: "e = 52 + (e - 52)" by linarith
  have "(2::real) powi (52 + (e - 52)) = 2 powi 52 * 2 powi (e - 52)"
    by (rule power_int_add) simp
  then have split: "(2::real) powi e = 2 ^ 52 * u"
    unfolding u_def by (simp only: eq [symmetric] power_int_numeral)
  have "2 ^ 52 * u \<le> x" using le split emax by simp
  then have "2 ^ 52 \<le> x / u" using u by (simp add: field_simps)
  then have "of_int (2 ^ 52) \<le> x / u" by simp
  then have "2 ^ 52 \<le> roundHalfEven (x / u)" by (rule roundHalfEven_ge)
  then have "(of_int (2 ^ 52) :: real) \<le> of_int (roundHalfEven (x / u))"
    by (simp only: of_int_le_iff)
  then have "2 ^ 52 * u \<le> r" using u by (simp add: r_def)
  then have "2 powi e \<le> r" using split by simp
  moreover have "(2::real) powi 1 \<le> 2 powi e"
    using e1 emax by (intro power_int_increasing) simp_all
  ultimately have "2 \<le> r" by simp
  with assms(2) have "K \<le> r" by simp
  moreover from assms(1) have "0 < x" by simp
  then have "roundDouble x = (if doubleOverflow \<le> r then PlusInfinity else Finite r)"
    using e_def by (rule roundDouble_pos) (simp add: r_def u_def)
  ultimately show ?thesis by simp
qed

lemma roundDouble_unit:
  assumes "1 \<le> x" and "x < 2" and "even k" and "K = of_int k / 2 ^ 52"
  shows "jsGe (roundDouble x) K = (K - 1 / 2 ^ 53 \<le> x)"
proof -
  define n where "n = roundHalfEven (x * 2 ^ 52)"
  define r where "r = (of_int n :: real) / 2 ^ 52"
  have e: "0 = max (exponentOf x) (- 1022)" using exponentOf_unit [OF assms(1,2)] by simp
  have u: "(2::real) powi (0 - 52) = 1 / 2 ^ 52"
    by (simp add: power_int_minus_divide)
  have "x * 2 ^ 52 \<le> of_int (2 ^ 53)" using assms(2) by simp
  then have "n \<le> 2 ^ 53" unfolding n_def by (rule roundHalfEven_le)
  then have "(of_int n :: real) \<le> of_int (2 ^ 53)" by (simp only: of_int_le_iff)
  then have "r \<le> 2" by (simp add: r_def field_simps)
  then have small: "\<not> doubleOverflow \<le> r" by (rule doubleOverflow_gt)
  from assms(1) have pos: "0 < x" by simp
  have "roundDouble x = (if doubleOverflow \<le> r then PlusInfinity else Finite r)"
    using pos e by (rule roundDouble_pos) (simp add: r_def n_def u)
  then have "jsGe (roundDouble x) K = (K \<le> r)" using small by simp
  also have "\<dots> = ((of_int k :: real) \<le> of_int n)" by (simp add: assms(4) r_def field_simps)
  also have "\<dots> = (k \<le> n)" by (simp only: of_int_le_iff)
  also have "\<dots> = (of_int k - 1 / 2 \<le> x * 2 ^ 52)"
    unfolding n_def using assms(3) by (rule roundHalfEven_ge_even)
  also have "\<dots> = (K - 1 / 2 ^ 53 \<le> x)" by (simp add: assms(4) field_simps)
  finally show ?thesis .
qed

lemma roundDouble_ge:
  assumes "even k" and "K = of_int k / 2 ^ 52" and "3 / 2 \<le> K" and "K \<le> 2"
  shows "jsGe (roundDouble x) K = (K - 1 / 2 ^ 53 \<le> x)"
proof -
  have half: "(1::real) / 2 ^ 53 < 1 / 2" by simp
  have pos: "(0::real) < 1 / 2 ^ 53" by simp
  consider "x \<le> 0" | "0 < x" "x < 1" | "1 \<le> x" "x < 2" | "2 \<le> x" by linarith
  then show ?thesis
  proof cases
    case 1
    then have "\<not> jsGe (roundDouble x) K" using assms(3) by (intro roundDouble_nonpos) simp_all
    moreover have "\<not> K - 1 / 2 ^ 53 \<le> x" using 1 assms(3) half by linarith
    ultimately show ?thesis by simp
  next
    case 2
    then have "\<not> jsGe (roundDouble x) K" using assms(3) by (intro roundDouble_below_one) simp_all
    moreover have "\<not> K - 1 / 2 ^ 53 \<le> x" using 2 assms(3) half by linarith
    ultimately show ?thesis by simp
  next
    case 3
    then show ?thesis using assms(1,2) by (rule roundDouble_unit)
  next
    case 4
    then have "jsGe (roundDouble x) K" using assms(4) by (rule roundDouble_above_two)
    moreover have "K - 1 / 2 ^ 53 \<le> x" using 4 assms(4) pos by linarith
    ultimately show ?thesis by simp
  qed
qed

lemma jsGe_two: "jsGe (roundDouble x) 2 = (2 - 1 / 2 ^ 53 \<le> x)"
  using roundDouble_ge [of "2 ^ 53" 2 x] by simp

lemma jsGe_three_halves: "jsGe (roundDouble x) (3 / 2) = (3 / 2 - 1 / 2 ^ 53 \<le> x)"
  using roundDouble_ge [of "3 * 2 ^ 51" "3 / 2" x] by simp

lemma getSeverity_exact:
  "getSeverity c t =
     (if t = 0 then (if 0 < c then ''critical'' else ''info'')
      else if 2 - 1 / 2 ^ 53 \<le> c / t then ''critical''
      else if 3 / 2 - 1 / 2 ^ 53 \<le> c / t then ''warning''
      else ''info'')"
proof -
  have a: "jsGe (roundDouble (c / t)) 2 = (2 - 1 / 2 ^ 53 \<le> c / t)" by (rule jsGe_two)
  have b: "jsGe (roundDouble (c / t)) (3 / 2) = (3 / 2 - 1 / 2 ^ 53 \<le> c / t)"
    by (rule jsGe_three_halves)
  show ?thesis
  proof (cases "t = 0")
    case True
    then show ?thesis by (simp add: getSeverity_def jsDivide_def Let_def)
  next
    case False
    then show ?thesis using a b by (simp add: getSeverity_def jsDivide_def Let_def)
  qed
qed

lemma jsDivide_boundary: "jsDivide 10 (7505999378950827 / 2 ^ 50) = Finite 1.5"
proof -
  let ?x = "(10::real) / (7505999378950827 / 2 ^ 50)"
  have lo: "1 \<le> ?x" by simp
  have hi: "?x < 2" by simp
  have e: "0 = max (exponentOf ?x) (- 1022)" using exponentOf_unit [OF lo hi] by simp
  have u: "(2::real) powi (0 - 52) = 1 / 2 ^ 52" by (simp add: power_int_minus_divide)
  have n: "roundHalfEven (?x / (1 / 2 ^ 52)) = 3 * 2 ^ 51"
    by (simp add: roundHalfEven_def Let_def)
  have r: "(1.5::real) = of_int (roundHalfEven (?x / 2 powi (0 - 52))) * 2 powi (0 - 52)"
    unfolding u n by simp
  have "\<not> doubleOverflow \<le> (1.5::real)" by (rule doubleOverflow_gt) simp
  moreover have "roundDouble ?x
      = (if doubleOverflow \<le> (1.5::real) then PlusInfinity else Finite 1.5)"
    using _ e r by (rule roundDouble_pos) simp
  ultimately show ?thesis by (simp add: jsDivide_def)
qed

subsection \<open>The severity posted\<close>

text \<open>
  Claim C8, as the code has it. Whenever both ends of the window are valid dates,
  \<open>sendAlert\<close> posts a payload, for every count and every threshold, and the
  payload's severity is \<open>critical\<close> when the quotient count / threshold, a double, is
  at least 2, \<open>warning\<close> when that double is at least 1.5 and below 2, and \<open>info\<close>
  otherwise. In terms of the exact ratio of the two values: over a threshold other than
  zero the severity is \<open>critical\<close> from 2 - 2^-53 on, \<open>warning\<close> from 1.5 - 2^-53 on
  and \<open>info\<close> below; over the threshold zero it is \<open>critical\<close> for a positive
  count and \<open>info\<close> otherwise. Count 11 with threshold 10 gives \<open>info\<close> and count 11
  with threshold 5 gives \<open>critical\<close>.
\<close>

theorem payload_severity_ratio:
  assumes "toISOString wStart = Inr st" and "toISOString wEnd = Inr en"
  shows "(\<exists>p ok. sendAlert post render stamp rule c wStart wEnd = Inr (p, ok)
            \<and> payload_severity p =
                (if jsGe (jsDivide c (threshold rule)) 2 then ''critical''
                 else if jsGe (jsDivide c (threshold rule)) 1.5 then ''warning''
                 else ''info'')
            \<and> payload_severity p =
                (if threshold rule = 0 then (if 0 < c then ''critical'' else ''info'')
                 else if 2 - 1 / 2 ^ 53 \<le> c / threshold rule then ''critical''
                 else if 1.5 - 1 / 2 ^ 53 \<le> c / threshold rule then ''warning''
                 else ''info''))
       \<and> (\<exists>p ok. sendAlert post render stamp (rule\<lparr>threshold := 10\<rparr>) 11 wStart wEnd
                     = Inr (p, ok)
            \<and> payload_severity p = ''info'')
       \<and> (\<exists>p ok. sendAlert post render stamp (rule\<lparr>threshold := 5\<rparr>) 11 wStart wEnd
                     = Inr (p, ok)
            \<and> payload_severity p = ''critical'')"
proof -
  have posted: "\<exists>p ok. sendAlert post render stamp r v wStart wEnd = Inr (p, ok)
      \<and> payload_severity p = getSeverity v (threshold r)" for r v
    using assms by (cases "post (webhook r) (requestHeaders r)
        \<lparr> payload_alertName = name r,
          payload_severity = getSeverity v (threshold r),
          payload_timestamp = stamp, window_start = st, window_end = en,
          window_duration = window r, trigger_query = query r,
          trigger_threshold = threshold r,
          trigger_operator = strOr (operator r) ''gt'',
          trigger_actualValue = v,
          payload_message = buildMessage render r v \<rparr>")
      (auto simp: sendAlert_def Let_def)
  have general: "getSeverity c (threshold rule) =
      (if jsGe (jsDivide c (threshold rule)) 2 then ''critical''
       else if jsGe (jsDivide c (threshold rule)) 1.5 then ''warning'' else ''info'')"
    by (simp add: getSeverity_def Let_def)
  have exact: "getSeverity c (threshold rule) =
      (if threshold rule = 0 then (if 0 < c then ''critical'' else ''info'')
       else if 2 - 1 / 2 ^ 53 \<le> c / threshold rule then ''critical''
       else if 1.5 - 1 / 2 ^ 53 \<le> c / threshold rule then ''warning''
       else ''info'')"
    by (simp add: getSeverity_exact)
  have low: "getSeverity 11 (threshold (rule\<lparr>threshold := 10\<rparr>)) = ''info''"
    by (simp add: getSeverity_exact)
  have high: "getSeverity 11 (threshold (rule\<lparr>threshold := 5\<rparr>)) = ''critical''"
    by (simp add: getSeverity_exact)
  from posted [of rule c] general exact have one: "\<exists>p ok.
      sendAlert post render stamp rule c wStart wEnd = Inr (p, ok)
      \<and> payload_severity p =
          (if jsGe (jsDivide c (threshold rule)) 2 then ''critical''
           else if jsGe (jsDivide c (threshold rule)) 1.5 then ''warning''
           else ''info'')
      \<and> payload_severity p =
          (if threshold rule = 0 then (if 0 < c then ''critical'' else ''info'')
           else if 2 - 1 / 2 ^ 53 \<le> c / threshold rule then ''critical''
           else if 1.5 - 1 / 2 ^ 53 \<le> c / threshold rule then ''warning''
           else ''info'')"
    by (elim exE conjE, intro exI conjI) (assumption, simp_all only:)
  from posted [of "rule\<lparr>threshold := 10\<rparr>" 11] low have two: "\<exists>p ok.
      sendAlert post render stamp (rule\<lparr>threshold := 10\<rparr>) 11 wStart wEnd = Inr (p, ok)
      \<and> payload_severity p = ''info''"
    by (elim exE conjE, intro exI conjI) (assumption, simp only:)
  from posted [of "rule\<lparr>threshold := 5\<rparr>" 11] high have three: "\<exists>p ok.
      sendAlert post render stamp (rule\<lparr>threshold := 5\<rparr>) 11 wStart wEnd = Inr (p, ok)
      \<and> payload_severity p = ''critical''"
    by (elim exE conjE, intro exI conjI) (assumption, simp only:)
  from one two three show ?thesis by (intro conjI)
qed

theorem payload_severity_ratio_witness:
  "toISOString (ValidDate 1699999160001) = Inr 1699999160001
   \<and> toISOString (ValidDate 1700000060001) = Inr 1700000060001
   \<and> (\<exists>p ok. sendAlert (\<lambda>_ _ _. Response True) (\<lambda>_. ''16'') 1700000060002 errorsRule 16
                (ValidDate 1699999160001) (ValidDate 1700000060001) = Inr (p, ok)
        \<and> payload_severity p = ''warning'')"
proof -
  have a: "toISOString (ValidDate 1699999160001) = Inr 1699999160001" by simp
  have b: "toISOString (ValidDate 1700000060001) = Inr 1700000060001" by simp
  have t: "threshold errorsRule = 10" by (simp add: errorsRule_def)
  have "\<exists>p ok. sendAlert (\<lambda>_ _ _. Response True) (\<lambda>_. ''16'') 1700000060002 errorsRule 16
                (ValidDate 1699999160001) (ValidDate 1700000060001) = Inr (p, ok)
            \<and> payload_severity p =
                (if jsGe (jsDivide 16 (threshold errorsRule)) 2 then ''critical''
                 else if jsGe (jsDivide 16 (threshold errorsRule)) 1.5 then ''warning''
                 else ''info'')
            \<and> payload_severity p =
                (if threshold errorsRule = 0 then (if 0 < (16::real) then ''critical'' else ''info'')
                 else if 2 - 1 / 2 ^ 53 \<le> 16 / threshold errorsRule then ''critical''
                 else if 1.5 - 1 / 2 ^ 53 \<le> 16 / threshold errorsRule then ''warning''
                 else ''info'')"
    using payload_severity_ratio [OF a b, of "\<lambda>_ _ _. Response True" "\<lambda>_. ''16''"
      1700000060002 errorsRule 16] by (rule conjunct1)
  then obtain p ok where s: "sendAlert (\<lambda>_ _ _. Response True) (\<lambda>_. ''16'') 1700000060002
        errorsRule 16 (ValidDate 1699999160001) (ValidDate 1700000060001) = Inr (p, ok)"
    and e: "payload_severity p =
                (if threshold errorsRule = 0 then (if 0 < (16::real) then ''critical'' else ''info'')
                 else if 2 - 1 / 2 ^ 53 \<le> 16 / threshold errorsRule then ''critical''
                 else if 1.5 - 1 / 2 ^ 53 \<le> 16 / threshold errorsRule then ''warning''
                 else ''info'')"
    by (elim exE conjE)
  from e have "payload_severity p = ''warning''" by (simp add: t)
  with s have "\<exists>p ok. sendAlert (\<lambda>_ _ _. Response True) (\<lambda>_. ''16'') 1700000060002 errorsRule 16
                (ValidDate 1699999160001) (ValidDate 1700000060001) = Inr (p, ok)
        \<and> payload_severity p = ''warning''"
    by blast
  with a b show ?thesis by simp
qed

text \<open>
  With the exact ratio compared with 2 and 1.5, as the specification words it, the claim
  fails at the boundary: for count 10 and the threshold 6.666666666666667, the double
  7505999378950827 / 2^50, the exact ratio is below 1.5 and the quotient of the two
  doubles is 1.5, so the rule fires under \<open>gt\<close> and the payload posted says
  \<open>warning\<close>, not \<open>info\<close>.
\<close>

theorem payload_severity_ratio_counterexample:
  "(10::real) / (7505999378950827 / 2 ^ 50) < 1.5
   \<and> checkThreshold 10 (7505999378950827 / 2 ^ 50) ''gt''
   \<and> jsDivide 10 (7505999378950827 / 2 ^ 50) = Finite 1.5
   \<and> (\<exists>p. sendAlert (\<lambda>_ _ _. Response True) (\<lambda>_. ''10'') 1700000060002
              (errorsRule\<lparr>threshold := 7505999378950827 / 2 ^ 50\<rparr>) 10
              (ValidDate 1699999160001) (ValidDate 1700000060001) = Inr (p, True)
        \<and> payload_severity p = ''warning''
        \<and> payload_severity p \<noteq> ''info'')"
proof -
  have a: "(10::real) / (7505999378950827 / 2 ^ 50) < 1.5" by simp
  have b: "checkThreshold 10 (7505999378950827 / 2 ^ 50) ''gt''"
    by (simp add: checkThreshold_def)
  have c: "jsDivide 10 (7505999378950827 / 2 ^ 50) = Finite 1.5"
    by (rule jsDivide_boundary)
  have "\<exists>p. sendAlert (\<lambda>_ _ _. Response True) (\<lambda>_. ''10'') 1700000060002
              (errorsRule\<lparr>threshold := 7505999378950827 / 2 ^ 50\<rparr>) 10
              (ValidDate 1699999160001) (ValidDate 1700000060001) = Inr (p, True)
        \<and> payload_severity p = ''warning''
        \<and> payload_severity p \<noteq> ''info''"
    by (simp add: sendAlert_def Let_def getSeverity_exact)
  with a b c show ?thesis by (intro conjI)
qed

section \<open>Facts about the configuration and the log store\<close>

lemma parseTimeWindow_15m: "parseTimeWindow ''15m'' = Inr 900000"
  by (simp add: parseTimeWindow_def matchesWindow_def isDigit_def digitsValue_def)

lemma parseTimeWindow_5m: "parseTimeWindow ''5m'' = Inr 300000"
  by (simp add: parseTimeWindow_def matchesWindow_def isDigit_def digitsValue_def)

lemma parseTimeWindow_100000000d: "parseTimeWindow ''100000000d'' = Inr 8640000000000000"
  by (simp add: parseTimeWindow_def matchesWindow_def isDigit_def digitsValue_def)

lemma AlertRuleSchema_window:
  "AlertRuleSchema isUrl r = Some rule \<Longrightarrow> \<exists>w. parseTimeWindow (window rule) = Inr w"
  by (auto simp: AlertRuleSchema_def parseTimeWindow_def matchesWindow_def Let_def
           split: if_splits)

lemma AlertRuleSchema_operator:
  "AlertRuleSchema isUrl r = Some rule \<Longrightarrow> raw_operator r = None \<Longrightarrow> operator rule = ''gt''"
  by (auto simp: AlertRuleSchema_def split: if_splits)

lemma AlertRuleSchema_threshold:
  "AlertRuleSchema isUrl r = Some rule \<Longrightarrow> threshold rule > 0"
  by (auto simp: AlertRuleSchema_def split: if_splits)

lemma AlertRuleSchema_errorsRaw: "AlertRuleSchema httpUrl errorsRaw = Some errorsRule"
  by (simp add: AlertRuleSchema_def errorsRaw_def errorsRule_def httpUrl_def matchesWindow_def
        isDigit_def)

lemma runAlertQuery_invalid_start: "runAlertQuery d p InvalidDate en = 0"
  by (simp add: runAlertQuery_def)

lemma runAlertQuery_throws:
  "(\<forall>a b. d (fullQuery p) a b = QueryThrows) \<Longrightarrow> runAlertQuery d p st en = 0"
  by (simp add: runAlertQuery_def split: sum.splits)

lemma runAlertQuery_zero: "runAlertQuery (\<lambda>_ _ _. Row [SqlNumber 0]) p st en = 0"
  by (simp add: runAlertQuery_def split: sum.splits)

section \<open>A failing count query\<close>

text \<open>
  Claim C6. For every predicate and time window, a failure while the count query is
  executed is caught and \<open>runAlertQuery\<close> returns 0: when the store throws, and also
  when an end of the window is not a valid date. The error does not leave the function:
  \<open>checkRule\<close> with a store that throws for the rule's predicate does what it does
  with a store that counts 0 records.
\<close>

theorem runAlertQuery_failure_is_zero:
  "(d (fullQuery predicate) st en = QueryThrows \<longrightarrow>
      runAlertQuery d predicate (ValidDate st) (ValidDate en) = 0)
   \<and> runAlertQuery d predicate InvalidDate endTime = 0
   \<and> runAlertQuery d predicate startTime InvalidDate = 0
   \<and> ((\<forall>a b. db e (fullQuery (query rule)) a b = QueryThrows) \<longrightarrow>
        checkRule e rule s = checkRule (e\<lparr>db := \<lambda>_ _ _. Row [SqlNumber 0]\<rparr>) rule s)"
proof -
  have a: "d (fullQuery predicate) st en = QueryThrows \<longrightarrow>
      runAlertQuery d predicate (ValidDate st) (ValidDate en) = 0"
    by (simp add: runAlertQuery_def)
  have b: "runAlertQuery d predicate InvalidDate endTime = 0"
    by (simp add: runAlertQuery_def)
  have c: "runAlertQuery d predicate startTime InvalidDate = 0"
    by (simp add: runAlertQuery_def split: sum.splits)
  have d: "(\<forall>a b. db e (fullQuery (query rule)) a b = QueryThrows) \<longrightarrow>
        checkRule e rule s = checkRule (e\<lparr>db := \<lambda>_ _ _. Row [SqlNumber 0]\<rparr>) rule s"
    by (simp add: checkRule_def Let_def runAlertQuery_throws runAlertQuery_zero
          split: sum.splits bool.splits)
  from a b c d show ?thesis by blast
qed

theorem runAlertQuery_failure_is_zero_witness:
  "db brokenStore (fullQuery ''severity <'') 1699999160001 1700000060001 = QueryThrows
   \<and> (\<forall>a b. db brokenStore (fullQuery (query errorsRule)) a b = QueryThrows)
   \<and> runAlertQuery (db brokenStore) ''severity <'' (ValidDate 1699999160001) (ValidDate 1700000060001) = 0
   \<and> checkRule brokenStore errorsRule freshEngine
       = checkRule (brokenStore\<lparr>db := \<lambda>_ _ _. Row [SqlNumber 0]\<rparr>) errorsRule freshEngine"
  using runAlertQuery_failure_is_zero
    [of "db brokenStore" "''severity <''" 1699999160001 1700000060001 _ _ brokenStore errorsRule freshEngine]
  by (simp add: brokenStore_def minuteLater_def)

section \<open>The cooldown gate\<close>

lemma checkRule_cooldown_skip:
  assumes "lastAlertTimes s (name rule) = Some t"
    and "parseTimeWindow (strOr (cooldown rule) ''5m'') = Inr cd"
    and "clock_cooldown e < t + cd"
    and "\<bar>t + cd\<bar> \<le> 8640000000000000"
  shows "checkRule e rule s = (None, s)"
  using assms by (simp add: checkRule_def isInCooldown_def newDate_def)

lemma checkRule_failed_delivery:
  assumes "\<forall>p. fetch e (webhook rule) (requestHeaders rule) p \<noteq> Response True"
  shows "lastAlertTimes (snd (checkRule e rule s)) = lastAlertTimes s
       \<and> alert_history (snd (checkRule e rule s)) = alert_history s"
  using assms
  by (auto simp: checkRule_def sendAlert_def Let_def
           split: sum.splits bool.splits fetchOutcome.splits prod.splits)

lemma checkRule_tracker_update:
  assumes "lastAlertTimes (snd (checkRule e rule s)) \<noteq> lastAlertTimes s"
  shows "\<exists>p. fetch e (webhook rule) (requestHeaders rule) p = Response True
           \<and> posts (snd (checkRule e rule s)) = posts s @ [p]
           \<and> lastAlertTimes (snd (checkRule e rule s))
               = (lastAlertTimes s)(name rule \<mapsto> clock_fired e)"
  using assms
  by (auto simp: checkRule_def sendAlert_def Let_def
           split: sum.splits bool.splits fetchOutcome.splits prod.splits if_splits)

text \<open>
  Claim C1. A rule fires at most once per cooldown interval measured from its last
  successful dispatch: while the current time is before the last-fire time plus the
  cooldown, the evaluator skips the rule, with no query and no dispatch. The three
  lemmas above give this for every rule whose cooldown end is a valid date, and give the
  two statements on the tracker for every rule. The rule \<open>once\<close> has the cooldown
  \<open>100000000d\<close>, which the schema accepts. It fired at 1700000000000 ms; one minute
  later, far before the end of its cooldown, \<open>checkRule\<close> queries the store, posts a
  notification, writes the history and moves the last-fire time: the cooldown end
  \<open>new Date(lastAlert.getTime() + cooldownMs)\<close> is beyond the range of a date, and
  \<open>new Date() < cooldownEnd\<close> is then false.
\<close>

theorem checkRule_cooldown_overflow:
  "parseTimeWindow (strOr (cooldown onceRule) ''5m'') = Inr 8640000000000000
   \<and> lastAlertTimes firedEngine (name onceRule) = Some 1700000000000
   \<and> clock_cooldown minuteLater < 1700000000000 + 8640000000000000
   \<and> length (queries (snd (checkRule minuteLater onceRule firedEngine))) = 1
   \<and> length (posts (snd (checkRule minuteLater onceRule firedEngine))) = 1
   \<and> length (alert_history (snd (checkRule minuteLater onceRule firedEngine))) = 1
   \<and> lastAlertTimes (snd (checkRule minuteLater onceRule firedEngine)) (name onceRule)
       = Some 1700000060003"
  by (simp add: checkRule_def isInCooldown_def onceRule_def errorsRule_def minuteLater_def
        firedEngine_def freshEngine_def strOr_def parseTimeWindow_100000000d
        parseTimeWindow_15m newDate_def runAlertQuery_def checkThreshold_def sendAlert_def
        Let_def)

section \<open>The default operator\<close>

text \<open>
  Claim C10. When a rule definition omits the operator, the rule the schema yields has
  the operator \<open>gt\<close>, and every evaluation of it (every call of \<open>checkRule\<close> that the
  cooldown does not skip) posts a notification exactly when the count is greater than
  the threshold; the payload posted reports the operator \<open>gt\<close>.
\<close>

theorem omitted_operator_is_gt:
  assumes omitted: "raw_operator r = None"
    and parsed: "AlertRuleSchema isUrl r = Some rule"
    and evaluated: "isInCooldown (clock_cooldown e) rule (lastAlertTimes s) = Inr False"
    and win: "parseTimeWindow (window rule) = Inr w"
    and cnt: "cnt = runAlertQuery (db e) (query rule) (newDate (clock_end e - w))
                      (ValidDate (clock_end e))"
  shows "operator rule = ''gt''
    \<and> (cnt > threshold rule \<longrightarrow>
          (\<exists>p. posts (snd (checkRule e rule s)) = posts s @ [p]
             \<and> trigger_operator p = ''gt'' \<and> trigger_actualValue p = cnt))
    \<and> (\<not> cnt > threshold rule \<longrightarrow> posts (snd (checkRule e rule s)) = posts s)"
proof -
  have op: "operator rule = ''gt''" using parsed omitted by (rule AlertRuleSchema_operator)
  have pos: "threshold rule > 0" using parsed by (rule AlertRuleSchema_threshold)
  have fire: "\<exists>p. posts (snd (checkRule e rule s)) = posts s @ [p]
             \<and> trigger_operator p = ''gt'' \<and> trigger_actualValue p = cnt"
    if gt: "cnt > threshold rule"
  proof -
    from gt pos have "cnt \<noteq> 0" by simp
    then obtain st where st: "newDate (clock_end e - w) = ValidDate st"
      unfolding cnt
      by (cases "newDate (clock_end e - w)") (simp_all add: runAlertQuery_invalid_start)
    show ?thesis
      using gt evaluated win op cnt st
      by (auto simp: checkRule_def Let_def checkThreshold_def strOr_def sendAlert_def
               split: fetchOutcome.splits)
  qed
  have quiet: "posts (snd (checkRule e rule s)) = posts s" if "\<not> cnt > threshold rule"
    using that evaluated win op cnt
    by (simp add: checkRule_def Let_def checkThreshold_def strOr_def)
  from op fire quiet show ?thesis by blast
qed

theorem omitted_operator_is_gt_witness:
  "raw_operator errorsRaw = None
   \<and> AlertRuleSchema httpUrl errorsRaw = Some errorsRule
   \<and> isInCooldown (clock_cooldown minuteLater) errorsRule (lastAlertTimes freshEngine) = Inr False
   \<and> parseTimeWindow (window errorsRule) = Inr 900000
   \<and> runAlertQuery (db minuteLater) (query errorsRule) (newDate (clock_end minuteLater - 900000))
        (ValidDate (clock_end minuteLater)) = 11
   \<and> (11::real) > threshold errorsRule
   \<and> operator errorsRule = ''gt''
   \<and> (\<exists>p. posts (snd (checkRule minuteLater errorsRule freshEngine)) = posts freshEngine @ [p]
          \<and> trigger_operator p = ''gt'' \<and> trigger_actualValue p = 11)"
proof -
  have a: "raw_operator errorsRaw = None" by (simp add: errorsRaw_def)
  have b: "isInCooldown (clock_cooldown minuteLater) errorsRule (lastAlertTimes freshEngine)
             = Inr False"
    by (simp add: isInCooldown_def freshEngine_def)
  have c: "parseTimeWindow (window errorsRule) = Inr 900000"
    by (simp add: errorsRule_def parseTimeWindow_15m)
  have d: "11 = runAlertQuery (db minuteLater) (query errorsRule)
             (newDate (clock_end minuteLater - 900000)) (ValidDate (clock_end minuteLater))"
    by (simp add: runAlertQuery_def minuteLater_def newDate_def)
  have t: "(11::real) > threshold errorsRule" by (simp add: errorsRule_def)
  from omitted_operator_is_gt [OF a AlertRuleSchema_errorsRaw b c d] a b c d t
  show ?thesis by (simp add: AlertRuleSchema_errorsRaw)
qed

section \<open>Single flight of the alert batch\<close>

lemma runChecks_singleFlight:
  "singleFlight s \<Longrightarrow> \<not> isRunning s \<Longrightarrow> singleFlight (runChecks config s)"
  by (simp add: singleFlight_def runChecks_def Let_def)

lemma resume_singleFlight: "singleFlight s \<Longrightarrow> singleFlight (resume i e s)"
proof -
  assume inv: "singleFlight s"
  show ?thesis
  proof (cases "active s")
    case Nil
    with inv show ?thesis by (simp add: resume_def)
  next
    case (Cons b bs)
    with inv have bs: "bs = []" and b: "b \<noteq> []" and r: "isRunning s"
      by (auto simp: singleFlight_def)
    show ?thesis
    proof (cases i)
      case 0
      with Cons bs b r show ?thesis
        by (cases b) (auto simp: resume_def singleFlight_def Let_def)
    next
      case (Suc n)
      with Cons bs inv show ?thesis by (simp add: resume_def)
    qed
  qed
qed

lemma step_singleFlight: "singleFlight s \<Longrightarrow> singleFlight (step config s ev)"
proof (cases ev)
  case Start
  assume "singleFlight s"
  with Start show ?thesis by (simp add: singleFlight_def)
next
  case Stop
  assume "singleFlight s"
  with Stop show ?thesis by (simp add: singleFlight_def)
next
  case Tick
  assume "singleFlight s"
  with Tick show ?thesis by (simp add: runChecks_singleFlight)
next
  case (Resume i e)
  assume "singleFlight s"
  with Resume show ?thesis by (simp add: resume_singleFlight)
qed

lemma run_singleFlight: "singleFlight s \<Longrightarrow> singleFlight (run config s es)"
  unfolding run_def by (induction es arbitrary: s) (simp_all add: step_singleFlight)

lemma ticks_skipped: "isRunning s \<Longrightarrow> foldl (step config) s (replicate k Tick) = s"
  by (induction k) simp_all

lemma batch_runs:
  "isRunning s \<Longrightarrow> active s = [rules] \<Longrightarrow> rules \<noteq> [] \<Longrightarrow> length kes = length rules \<Longrightarrow>
   run config s (batchEvents kes)
     = s\<lparr>isRunning := False, active := [], checked := checked s @ rules,
          eng := checkAll (zip (map snd kes) rules) (eng s)\<rparr>"
proof (induction kes arbitrary: s rules)
  case Nil
  then show ?case by simp
next
  case (Cons ke kes)
  obtain k e where ke: "ke = (k, e)" by (cases ke)
  from Cons.prems obtain r rest where rules: "rules = r # rest" by (cases rules) auto
  let ?s1 = "resume 0 e s"
  have split: "run config s (batchEvents (ke # kes)) = run config ?s1 (batchEvents kes)"
    using Cons.prems(1) by (simp add: run_def batchEvents_def ke ticks_skipped)
  show ?case
  proof (cases "rest = []")
    case True
    with Cons.prems rules have "kes = []" by simp
    with True rules Cons.prems show ?thesis
      unfolding split by (simp add: run_def batchEvents_def resume_def Let_def ke)
  next
    case False
    have s1: "?s1 = s\<lparr>eng := snd (checkRule e r (eng s)), checked := checked s @ [r],
                       active := [rest]\<rparr>"
      using Cons.prems rules False by (simp add: resume_def Let_def)
    have "run config ?s1 (batchEvents kes)
        = ?s1\<lparr>isRunning := False, active := [], checked := checked ?s1 @ rest,
          eng := checkAll (zip (map snd kes) rest) (eng ?s1)\<rparr>"
      using Cons.prems rules False by (intro Cons.IH) (simp_all add: s1)
    then show ?thesis unfolding split by (simp add: s1 rules ke)
  qed
qed

text \<open>
  Claim C7. At most one alert batch is ever in flight: in every state the scheduler
  reaches from an idle one, whatever the order of calls of \<open>start\<close> and \<open>stop\<close>,
  timer callbacks and resumptions, at most one activation of \<open>runChecks\<close> exists. A
  timer callback that arrives while a batch is running leaves the state as it is, so
  nothing is queued. With the timer installed, a batch checks the enabled rules one
  after the other in the configured order and ends idle with no activation left,
  whatever number of timer callbacks arrive during it.
\<close>

theorem single_flight:
  assumes "\<not> isRunning s0" and "active s0 = []"
  shows "length (active (run config s0 es)) \<le> 1
    \<and> (isRunning (run config s0 es) \<longrightarrow> step config (run config s0 es) Tick = run config s0 es)
    \<and> (checkInterval s0 \<and> length kes = length (getAlertRules config) \<longrightarrow>
         (let s' = run config s0 (Tick # batchEvents kes) in
          \<not> isRunning s' \<and> active s' = []
          \<and> checked s' = checked s0 @ getAlertRules config
          \<and> eng s' = checkAll (zip (map snd kes) (getAlertRules config)) (eng s0)))"
proof -
  from assms have inv: "singleFlight s0" by (simp add: singleFlight_def)
  have a: "length (active (run config s0 es)) \<le> 1"
    using run_singleFlight [OF inv, of config es] by (simp add: singleFlight_def)
  have b: "isRunning (run config s0 es) \<longrightarrow> step config (run config s0 es) Tick = run config s0 es"
    by simp
  have c: "checkInterval s0 \<and> length kes = length (getAlertRules config) \<longrightarrow>
         (let s' = run config s0 (Tick # batchEvents kes) in
          \<not> isRunning s' \<and> active s' = []
          \<and> checked s' = checked s0 @ getAlertRules config
          \<and> eng s' = checkAll (zip (map snd kes) (getAlertRules config)) (eng s0))"
  proof
    assume "checkInterval s0 \<and> length kes = length (getAlertRules config)"
    then have timer: "checkInterval s0" and len: "length kes = length (getAlertRules config)"
      by simp_all
    show "let s' = run config s0 (Tick # batchEvents kes) in
          \<not> isRunning s' \<and> active s' = []
          \<and> checked s' = checked s0 @ getAlertRules config
          \<and> eng s' = checkAll (zip (map snd kes) (getAlertRules config)) (eng s0)"
    proof (cases "getAlertRules config = []")
      case True
      with len assms timer show ?thesis
        by (simp add: run_def batchEvents_def runChecks_def Let_def)
    next
      case False
      let ?s1 = "s0\<lparr>isRunning := True, active := [getAlertRules config]\<rparr>"
      have st: "run config s0 (Tick # batchEvents kes) = run config ?s1 (batchEvents kes)"
        using assms timer False by (simp add: run_def runChecks_def Let_def)
      have "run config ?s1 (batchEvents kes) = ?s1\<lparr>isRunning := False, active := [],
           checked := checked ?s1 @ getAlertRules config,
           eng := checkAll (zip (map snd kes) (getAlertRules config)) (eng ?s1)\<rparr>"
        using False len by (intro batch_runs) simp_all
      then show ?thesis unfolding st by (simp add: Let_def)
    qed
  qed
  from a b c show ?thesis by blast
qed

theorem single_flight_witness:
  "\<not> isRunning idle \<and> active idle = []
   \<and> getAlertRules exampleConfig = [errorsRule, onceRule]
   \<and> isRunning (run exampleConfig idle [Start, Tick, Tick, Resume 0 minuteLater, Tick])
   \<and> step exampleConfig (run exampleConfig idle [Start, Tick, Tick, Resume 0 minuteLater, Tick]) Tick
       = run exampleConfig idle [Start, Tick, Tick, Resume 0 minuteLater, Tick]
   \<and> length (active (run exampleConfig idle [Start, Tick, Tick, Resume 0 minuteLater, Tick])) \<le> 1
   \<and> checkInterval (step exampleConfig idle Start)
   \<and> (let s' = run exampleConfig (step exampleConfig idle Start)
                  (Tick # batchEvents [(2, minuteLater), (1, brokenStore)]) in
          \<not> isRunning s' \<and> active s' = []
          \<and> checked s' = [errorsRule, onceRule]
          \<and> eng s' = checkAll [(minuteLater, errorsRule), (brokenStore, onceRule)] freshEngine)"
proof -
  have a: "\<not> isRunning idle" and b: "active idle = []" by (simp_all add: idle_def)
  have a': "\<not> isRunning (step exampleConfig idle Start)"
    and b': "active (step exampleConfig idle Start) = []"
    and t: "checkInterval (step exampleConfig idle Start)"
    by (simp_all add: idle_def exampleConfig_def)
  have r: "getAlertRules exampleConfig = [errorsRule, onceRule]"
    by (simp add: getAlertRules_def exampleConfig_def errorsRule_def mutedRule_def onceRule_def)
  have en: "alerting_enabled exampleConfig" by (simp add: exampleConfig_def)
  have running:
    "isRunning (run exampleConfig idle [Start, Tick, Tick, Resume 0 minuteLater, Tick])"
    by (simp add: run_def idle_def runChecks_def r en resume_def Let_def)
  from single_flight [OF a b, of exampleConfig "[Start, Tick, Tick, Resume 0 minuteLater, Tick]"]
    single_flight [OF a' b', of exampleConfig _ "[(2, minuteLater), (1, brokenStore)]"]
    a b t r running
  show ?thesis by (simp add: idle_def en)
qed

section \<open>Framing\<close>

lemma loop_empty: "loop [] emitted = (emitted, [])"
  by (subst loop.simps) simp

lemma loop_octet_complete:
  assumes "matchOctet remaining = Some (ds, p)" and "p + digitsValue ds \<le> length remaining"
  shows "loop remaining emitted
     = loop (drop (p + digitsValue ds) remaining)
         (emitted @ [substring p (p + digitsValue ds) remaining])"
proof -
  from assms(1) have "remaining \<noteq> []" by (auto simp: matchOctet_def)
  with assms show ?thesis by (subst loop.simps) (simp add: Let_def)
qed

lemma loop_octet_partial:
  assumes "matchOctet remaining = Some (ds, p)" and "length remaining < p + digitsValue ds"
  shows "loop remaining emitted = (emitted, remaining)"
  using assms by (subst loop.simps) (simp add: Let_def)

lemma loop_lines:
  assumes "matchOctet remaining = None" and "1 < length (splitLines remaining)"
  shows "loop remaining emitted
     = loop (last (splitLines remaining))
         (emitted @ map trim (filter (\<lambda>line. trim line \<noteq> []) (butlast (splitLines remaining))))"
proof -
  from assms(2) have "remaining \<noteq> []" by auto
  with assms show ?thesis by (subst loop.simps) (simp add: Let_def)
qed

lemma loop_nul:
  assumes "matchOctet remaining = None" and "length (splitLines remaining) \<le> 1"
    and "NUL \<in> set remaining"
  shows "loop remaining emitted
     = loop (last (splitOn NUL remaining))
         (emitted @ map trim (filter (\<lambda>msg. trim msg \<noteq> []) (butlast (splitOn NUL remaining))))"
proof -
  from assms(3) have "remaining \<noteq> []" by auto
  with assms show ?thesis by (subst loop.simps) (simp add: Let_def)
qed

lemma loop_wait:
  assumes "matchOctet remaining = None" and "length (splitLines remaining) \<le> 1"
    and "NUL \<notin> set remaining"
  shows "loop remaining emitted = (emitted, remaining)"
  using assms by (subst loop.simps) (simp add: Let_def)

lemma isDigit_space: "\<not> isDigit (CHR '' '')"
  by (simp add: isDigit_def)

lemma matchOctet_prefix:
  assumes "ds \<noteq> []" and "list_all isDigit ds" and "isSpace c"
  shows "matchOctet (ds @ c # rest) = Some (ds, length ds + 1)"
proof -
  have nd: "\<not> isDigit c" using assms(3) by (auto simp: isSpace_def isDigit_def)
  from assms(2) have all: "\<forall>x\<in>set ds. isDigit x" by (simp add: list_all_iff)
  have tw: "takeWhile isDigit (ds @ c # rest) = ds"
    using all nd by (simp add: takeWhile_append2)
  have dw: "dropWhile isDigit (ds @ c # rest) = c # rest"
    using all nd by (simp add: dropWhile_append2)
  show ?thesis using assms(1,3) by (simp add: matchOctet_def tw dw)
qed

lemma octet_general:
  assumes "ds \<noteq> []" and "list_all isDigit ds"
  shows "(digitsValue ds \<le> length rest \<longrightarrow>
           loop (ds @ CHR '' '' # rest) emitted
             = loop (drop (digitsValue ds) rest) (emitted @ [take (digitsValue ds) rest]))
       \<and> (length rest < digitsValue ds \<longrightarrow>
           loop (ds @ CHR '' '' # rest) emitted = (emitted, ds @ CHR '' '' # rest))"
proof -
  have m: "matchOctet (ds @ CHR '' '' # rest) = Some (ds, length ds + 1)"
    using assms by (intro matchOctet_prefix) (simp_all add: isSpace_def)
  show ?thesis
  proof (intro conjI impI)
    assume "digitsValue ds \<le> length rest"
    then show "loop (ds @ CHR '' '' # rest) emitted
             = loop (drop (digitsValue ds) rest) (emitted @ [take (digitsValue ds) rest])"
      by (subst loop_octet_complete [OF m]) (simp_all add: substring_def)
  next
    assume "length rest < digitsValue ds"
    then show "loop (ds @ CHR '' '' # rest) emitted = (emitted, ds @ CHR '' '' # rest)"
      by (subst loop_octet_partial [OF m]) simp_all
  qed
qed

lemma two_chunks_upto:
  "list_all (\<lambda>k. twoChunks ''5 hello6 world!'' k = ([''hello'', ''world!''], [])) [0..<16]"
  by code_simp

lemma two_chunks_all: "twoChunks ''5 hello6 world!'' k = ([''hello'', ''world!''], [])"
proof (cases "k < 16")
  case True
  with two_chunks_upto show ?thesis by (simp add: list_all_iff)
next
  case False
  then have "twoChunks ''5 hello6 world!'' k = twoChunks ''5 hello6 world!'' 15"
    by (simp add: twoChunks_def)
  also have "\<dots> = ([''hello'', ''world!''], [])"
    using two_chunks_upto by (simp add: list_all_iff)
  finally show ?thesis .
qed

lemma partial_frame:
  "onData [] ''10 abc'' = ([], ''10 abc'')"
  "length late < 7 \<Longrightarrow> onData ''10 abc'' late = ([], ''10 abc'' @ late)"
  "length late = 7 \<Longrightarrow> onData ''10 abc'' late = ([''abc'' @ late], [])"
proof -
  have dv: "digitsValue ''10'' = 10" by (simp add: digitsValue_def)
  have g: "''10'' \<noteq> []" "list_all isDigit ''10''" by (simp_all add: isDigit_def)
  show "onData [] ''10 abc'' = ([], ''10 abc'')"
    using octet_general [OF g, of "''abc''" "[]"] by (simp add: onData_def dv)
  show "onData ''10 abc'' late = ([], ''10 abc'' @ late)" if "length late < 7"
    using octet_general [OF g, of "''abc'' @ late" "[]"] that by (simp add: onData_def dv)
  show "onData ''10 abc'' late = ([''abc'' @ late], [])" if "length late = 7"
    using octet_general [OF g, of "''abc'' @ late" "[]"] that
    by (simp add: onData_def dv loop_empty)
qed


lemma splitLines_length: "(1 < length (splitLines s)) = (LF \<in> set s)"
proof (induction s rule: splitLines.induct)
  case 1
  show ?case by simp
next
  case (2 c cs)
  obtain l ls where sp: "splitLines cs = l # ls"
    using splitLines_nonempty [of cs] by (cases "splitLines cs") auto
  show ?case
  proof (cases "c = CR \<and> cs \<noteq> [] \<and> hd cs = LF")
    case True
    then have "LF \<in> set cs" by (cases cs) auto
    with True show ?thesis using splitLines_nonempty [of "tl cs"] 
      by (cases "splitLines (tl cs)") auto
  next
    case False
    with 2 sp show ?thesis by (cases "c = LF") auto
  qed
qed

lemma matchOctet_Some_iff:
  "(matchOctet buf \<noteq> None)
     = (\<exists>ds c rest. buf = ds @ c # rest \<and> ds \<noteq> [] \<and> list_all isDigit ds \<and> isSpace c)"
proof
  assume "matchOctet buf \<noteq> None"
  then have a: "takeWhile isDigit buf \<noteq> []" and b: "dropWhile isDigit buf \<noteq> []"
    and c: "isSpace (hd (dropWhile isDigit buf))"
    by (auto simp: matchOctet_def Let_def split: if_splits)
  from b obtain x xs where d: "dropWhile isDigit buf = x # xs"
    by (cases "dropWhile isDigit buf") auto
  have "buf = takeWhile isDigit buf @ x # xs"
    using takeWhile_dropWhile_id [of isDigit buf] d by simp
  moreover have "list_all isDigit (takeWhile isDigit buf)"
    by (simp add: list_all_iff) (meson set_takeWhileD)
  moreover have "isSpace x" using c d by simp
  ultimately show "\<exists>ds c rest. buf = ds @ c # rest \<and> ds \<noteq> [] \<and> list_all isDigit ds \<and> isSpace c"
    using a by blast
next
  assume "\<exists>ds c rest. buf = ds @ c # rest \<and> ds \<noteq> [] \<and> list_all isDigit ds \<and> isSpace c"
  then show "matchOctet buf \<noteq> None" by (auto simp: matchOctet_prefix)
qed

lemma last_splitLines_no_LF: "LF \<notin> set (last (splitLines s))"
proof (induction s rule: splitLines.induct)
  case 1
  show ?case by simp
next
  case (2 c cs)
  obtain l ls where sp: "splitLines cs = l # ls"
    using splitLines_nonempty [of cs] by (cases "splitLines cs") auto
  show ?case
  proof (cases "c = CR \<and> cs \<noteq> [] \<and> hd cs = LF")
    case True
    with 2 show ?thesis by (simp add: splitLines_nonempty)
  next
    case False
    with 2 sp show ?thesis by (cases "c = LF"; cases ls) auto
  qed
qed

text \<open>
  In characters of the decoded buffer the decoder does what the length prefix asks.
  For every buffer that starts with one or more decimal digits followed by a single
  space, the digits having the value N: if at least N characters follow the prefix, the
  decoder hands exactly those N characters to \<open>processMessage\<close> as one message,
  consumes the prefix and the N characters, and goes on with the remainder; if fewer
  than N follow, it emits nothing more and keeps the whole text as the buffer, trying no
  other framing. \<open>5 hello6 world!\<close> delivered in two chunks cut at any position gives
  the messages \<open>hello\<close> and \<open>world!\<close> in that order and leaves an empty buffer;
  \<open>10 abc\<close> gives no message, nor does it while fewer than 7 further characters have
  arrived, and gives one message of 10 characters once 7 have.
\<close>

lemma octet_counted_frame:
  assumes "ds \<noteq> []" and "list_all isDigit ds"
  shows "(digitsValue ds \<le> length rest \<longrightarrow>
           loop (ds @ CHR '' '' # rest) emitted
             = loop (drop (digitsValue ds) rest) (emitted @ [take (digitsValue ds) rest]))
       \<and> (length rest < digitsValue ds \<longrightarrow>
           loop (ds @ CHR '' '' # rest) emitted = (emitted, ds @ CHR '' '' # rest))
       \<and> (\<forall>k. twoChunks ''5 hello6 world!'' k = ([''hello'', ''world!''], []))
       \<and> onData [] ''10 abc'' = ([], ''10 abc'')
       \<and> (length late < 7 \<longrightarrow> onData ''10 abc'' late = ([], ''10 abc'' @ late))
       \<and> (length late = 7 \<longrightarrow> onData ''10 abc'' late = ([''abc'' @ late], []))"
  using octet_general [OF assms, of rest emitted] two_chunks_all partial_frame(1)
    partial_frame(2,3) [of late]
  by blast

lemma octet_counted_frame_example:
  "''5'' \<noteq> [] \<and> list_all isDigit ''5'' \<and> digitsValue ''5'' = 5
   \<and> loop (''5 hello6 world!'') [] = loop ''6 world!'' [''hello'']
   \<and> loop ''6 world'' [''hello''] = ([''hello''], ''6 world'')
   \<and> onData ''10 abc'' ''defg'' = ([], ''10 abcdefg'')
   \<and> onData ''10 abc'' ''defghij'' = ([''abcdefghij''], [])"
proof -
  have a: "''5'' \<noteq> []" and b: "list_all isDigit ''5''" by (simp_all add: isDigit_def)
  have c: "''6'' \<noteq> []" and d: "list_all isDigit ''6''" by (simp_all add: isDigit_def)
  have v: "digitsValue ''5'' = 5" "digitsValue ''6'' = 6" by (simp_all add: digitsValue_def)
  from octet_counted_frame [OF a b, of "''hello6 world!''" "[]" "''defg''"]
    octet_counted_frame [OF c d, of "''world''" "[''hello'']" "''defghij''"] a b v
  show ?thesis by simp
qed

lemma utf8_ascii: "list_all (\<lambda>c. (of_char c :: nat) < 128) t \<Longrightarrow> utf8 t = t"
  by (induction t) (simp_all add: utf8_def)

text \<open>
  Claim C2. For every buffer that starts with decimal digits followed by a single space,
  declaring a byte length N: if at least N bytes follow the prefix, the decoder extracts
  exactly those N bytes as one message, and otherwise waits. The lemma
  \<open>octet_counted_frame\<close> is this claim with the length counted in characters of the
  decoded text, which are its bytes as long as the text is ASCII
  (\<open>utf8_ascii\<close>); the two examples of the claim are among them. The handler compares
  the declared length with \<open>remaining.length\<close>, though, and a character outside ASCII
  is more than one byte. Take the message made of \<open>h\<close>, the character 0xE9 (e with
  an acute accent) and \<open>llo\<close>, five characters and six bytes. Its frame is the eight
  bytes 36 20 68 C3 A9 6C 6C 6F: the six bytes its prefix declares follow the prefix,
  and the decoder emits nothing and waits, the decoded rest having five characters.
  When the frame \<open>5 world\<close> follows, the decoder emits the message with the \<open>5\<close> of
  the next prefix at its end and keeps \<open>" world"\<close> as the buffer.
\<close>

theorem octet_count_in_characters:
  "utf8 (''6 h'' @ [CHR 0xE9] @ ''llo'')
     = [CHR 0x36, CHR 0x20, CHR 0x68, CHR 0xC3, CHR 0xA9, CHR 0x6C, CHR 0x6C, CHR 0x6F]
   \<and> digitsValue ''6'' = 6
   \<and> length (utf8 (''h'' @ [CHR 0xE9] @ ''llo'')) = 6
   \<and> onData [] (''6 h'' @ [CHR 0xE9] @ ''llo'') = ([], ''6 h'' @ [CHR 0xE9] @ ''llo'')
   \<and> length (utf8 ''world'') = 5
   \<and> onData [] (''6 h'' @ [CHR 0xE9] @ ''llo5 world'')
       = ([''h'' @ [CHR 0xE9] @ ''llo5''], '' world'')"
  by code_simp

text \<open>
  Claim C4, as the code has it. For every buffer in which no run of digits followed by
  a white-space character stands at the start and which contains a line feed, the
  decoder splits the buffer at every \<open>\r?\n\<close>, hands on, in order, the trimmed text of
  each complete line whose trimmed text is not empty, and goes on decoding with the
  partial line after the last delimiter; that partial line is the new buffer when it
  starts no length prefix and holds no NUL.
\<close>

theorem line_delimited:
  assumes "matchOctet buf = None" and "LF \<in> set buf"
  shows "loop buf emitted
       = loop (last (splitLines buf))
           (emitted @ map trim (filter (\<lambda>line. trim line \<noteq> []) (butlast (splitLines buf))))
     \<and> (matchOctet (last (splitLines buf)) = None \<and> NUL \<notin> set (last (splitLines buf)) \<longrightarrow>
         loop buf emitted
           = (emitted @ map trim (filter (\<lambda>line. trim line \<noteq> []) (butlast (splitLines buf))),
              last (splitLines buf)))"
proof -
  from assms(2) have many: "1 < length (splitLines buf)"
    using splitLines_length [of buf] by simp
  have one: "length (splitLines (last (splitLines buf))) \<le> 1"
    using splitLines_length [of "last (splitLines buf)"] last_splitLines_no_LF [of buf]
    by simp
  have first: "loop buf emitted
       = loop (last (splitLines buf))
           (emitted @ map trim (filter (\<lambda>line. trim line \<noteq> []) (butlast (splitLines buf))))"
    using assms(1) many by (rule loop_lines)
  show ?thesis
    unfolding first using one by (simp add: loop_wait)
qed

theorem line_delimited_witness:
  "matchOctet (''abc'' @ [CR, LF] @ '' d '' @ [LF] @ ''  '' @ [LF] @ ''ef'') = None
   \<and> LF \<in> set (''abc'' @ [CR, LF] @ '' d '' @ [LF] @ ''  '' @ [LF] @ ''ef'')
   \<and> matchOctet ''ef'' = None \<and> NUL \<notin> set ''ef''
   \<and> splitLines (''abc'' @ [CR, LF] @ '' d '' @ [LF] @ ''  '' @ [LF] @ ''ef'')
       = [''abc'', '' d '', ''  '', ''ef'']
   \<and> loop (''abc'' @ [CR, LF] @ '' d '' @ [LF] @ ''  '' @ [LF] @ ''ef'') [] = ([''abc'', ''d''], ''ef'')"
proof -
  have sp: "splitLines (''abc'' @ [CR, LF] @ '' d '' @ [LF] @ ''  '' @ [LF] @ ''ef'')
       = [''abc'', '' d '', ''  '', ''ef'']" by simp
  have m: "matchOctet (''abc'' @ [CR, LF] @ '' d '' @ [LF] @ ''  '' @ [LF] @ ''ef'') = None"
    by (simp add: matchOctet_def isDigit_def)
  have l: "LF \<in> set (''abc'' @ [CR, LF] @ '' d '' @ [LF] @ ''  '' @ [LF] @ ''ef'')" by simp
  have m2: "matchOctet ''ef'' = None" by (simp add: matchOctet_def isDigit_def)
  from line_delimited [OF m l, of "[]"] sp m m2 show ?thesis
    by (simp add: trim_def isSpace_def)
qed

text \<open>
  The claim as the specification words it (each non-empty line is emitted and the
  trailing partial line is retained) fails on the buffer \<open>" a \n1 x"\<close>: the line
  \<open>" a "\<close> is emitted trimmed, and the partial line \<open>"1 x"\<close> is decoded in the same
  call as a length-prefixed frame, leaving an empty buffer. It fails on
  \<open>"7\nabcdefg\n"\<close> as well, where a line feed and no space follows the digits: the
  line \<open>7\<close> is taken as the length of a frame and is not emitted.
\<close>

theorem line_delimited_counterexample:
  "takeWhile isDigit '' a \<newline>1 x'' = []
   \<and> LF \<in> set '' a \<newline>1 x''
   \<and> splitLines '' a \<newline>1 x'' = ['' a '', ''1 x'']
   \<and> onData [] '' a \<newline>1 x'' = ([''a'', ''x''], [])
   \<and> onData [] '' a \<newline>1 x'' \<noteq> (['' a ''], ''1 x'')
   \<and> takeWhile isDigit ''7\<newline>abcdefg\<newline>'' = ''7''
   \<and> dropWhile isDigit ''7\<newline>abcdefg\<newline>'' \<noteq> CHR '' '' # drop 2 ''7\<newline>abcdefg\<newline>''
   \<and> LF \<in> set ''7\<newline>abcdefg\<newline>''
   \<and> splitLines ''7\<newline>abcdefg\<newline>'' = [''7'', ''abcdefg'', []]
   \<and> onData [] ''7\<newline>abcdefg\<newline>'' = ([''abcdefg''], [])
   \<and> onData [] ''7\<newline>abcdefg\<newline>'' \<noteq> ([''7'', ''abcdefg''], [])"
  by code_simp

section \<open>Parsing a message\<close>

declare sdLoop.simps [simp del] findMessageStart.simps [simp del]

lemma truthy_Some: "truthy v \<Longrightarrow> \<exists>s. v = Some s"
  by (cases v) (simp_all add: truthy_def)

lemma sdLoop_returns: "\<exists>r. sdLoop parts i result currentSD inSD = Inr r"
proof (induction parts i result currentSD inSD rule: sdLoop.induct)
  case (1 parts i result currentSD inSD)
  show ?case
  proof (cases "i < length parts")
    case False
    then show ?thesis by (subst sdLoop.simps) simp
  next
    case inside: True
    show ?thesis
    proof (cases "truthy (elemAt parts i)")
      case False
      with inside "1.IH"(1) show ?thesis by (subst sdLoop.simps) simp
    next
      case True
      then obtain part where part: "elemAt parts i = Some part" by (auto dest: truthy_Some)
      let ?a = "sdAppend currentSD inSD part"
      show ?thesis
      proof (cases "snd ?a \<and> endsWith '']'' (fst ?a)")
        case False
        with inside True part "1.IH"(3) [OF inside _ part] show ?thesis
          by (subst sdLoop.simps) auto
      next
        case closed: True
        show ?thesis
        proof (cases "i + 1 < length parts \<and> truthy (elemAt parts (i + 1))")
          case False
          with inside True part closed show ?thesis by (subst sdLoop.simps) auto
        next
          case more: True
          then obtain nextPart where np: "elemAt parts (i + 1) = Some nextPart"
            by (auto dest: truthy_Some)
          show ?thesis
          proof (cases "startsWith ''['' nextPart")
            case False
            with inside True part closed more np show ?thesis by (subst sdLoop.simps) auto
          next
            case sw: True
            have "\<exists>r. sdLoop parts (i + 1) (sdStore (fst ?a) result) [] False = Inr r"
              using "1.IH"(2) [OF inside _ part _ _ np sw] True closed more by simp
            with inside True part closed more np sw show ?thesis
              by (subst sdLoop.simps) auto
          qed
        qed
      qed
    qed
  qed
qed

lemma findMessageStart_returns: "\<exists>r. findMessageStart parts i = Inr r"
proof (induction parts i rule: findMessageStart.induct)
  case (1 parts i)
  show ?case
  proof (cases "i < length parts")
    case False
    then show ?thesis by (subst findMessageStart.simps) simp
  next
    case inside: True
    show ?thesis
    proof (cases "case elemAt parts i of None \<Rightarrow> False | Some part \<Rightarrow> endsWith '']'' part")
      case False
      with inside "1.IH"(2) show ?thesis by (subst findMessageStart.simps) simp
    next
      case closed: True
      show ?thesis
      proof (cases "i + 1 \<ge> length parts \<or> \<not> truthy (elemAt parts (i + 1))")
        case True
        with inside closed show ?thesis by (subst findMessageStart.simps) auto
      next
        case False
        then obtain nextPart where np: "elemAt parts (i + 1) = Some nextPart"
          by (auto dest: truthy_Some)
        show ?thesis
        proof (cases "startsWith ''['' nextPart")
          case False
          with inside closed np \<open>\<not> (i + 1 \<ge> length parts \<or> \<not> truthy (elemAt parts (i + 1)))\<close>
          show ?thesis by (subst findMessageStart.simps) auto
        next
          case True
          with "1.IH"(1) [OF inside closed _ np] False
          have "\<exists>r. findMessageStart parts (i + 1) = Inr r" by simp
          with inside closed np True False show ?thesis
            by (subst findMessageStart.simps) auto
        qed
      qed
    qed
  qed
qed

lemma parseRFC5424_returns: "\<exists>m. parseRFC5424 pe rawText fac sev content = Inr m"
proof -
  let ?parts = "splitOn (CHR '' '') content"
  obtain sd where sd: "parseStructuredData ?parts 5 = Inr sd"
    using sdLoop_returns [of ?parts 5 "[]" "[]" False]
    by (auto simp: parseStructuredData_def)
  obtain ms where ms: "findMessageStart ?parts 5 = Inr ms"
    using findMessageStart_returns [of ?parts 5] by auto
  show ?thesis
  proof (cases "truthy (elemAt ?parts 5)")
    case False
    then show ?thesis by (simp add: parseRFC5424_def Let_def)
  next
    case True
    then obtain p5 where "elemAt ?parts 5 = Some p5" by (auto dest: truthy_Some)
    then show ?thesis by (simp add: parseRFC5424_def Let_def sd ms)
  qed
qed

lemma parse_returns: "\<exists>m. parse pe text = Inr m"
  using parseRFC5424_returns by (simp add: parse_def Let_def)


lemma parseRFC5424_priority:
  "parseRFC5424 pe rawText fac sev content = Inr m \<Longrightarrow> facility m = fac \<and> severity m = sev"
  by (auto simp: parseRFC5424_def Let_def split: sum.splits if_splits option.splits prod.splits)

lemma parseRFC3164_priority:
  "facility (parseRFC3164 pe rawText fac sev content) = fac
   \<and> severity (parseRFC3164 pe rawText fac sev content) = sev"
  by (auto simp: parseRFC3164_def Let_def split: option.splits prod.splits)

lemma indexOf_first:
  "c \<notin> set pre \<Longrightarrow> indexOf c (pre @ c # rest) = int (length pre)"
  by (induction pre) (auto simp: indexOf_def)

lemma parseInt_rounds:
  "parseInt ''9007199254740992'' = Num 9007199254740992
   \<and> parseInt ''9007199254740993'' = Num 9007199254740992
   \<and> parseInt ''9007199254740995'' = Num 9007199254740996
   \<and> parseInt ''-9007199254740993'' = Num (- 9007199254740992)"
  by (simp add: parseInt_def isSpace_def isDigit_def digitsValue_def Let_def
      nearestDouble_def bitLength.simps)

lemma nearestDouble_overflow:
  "nearestDouble (2 ^ 1024 - 2 ^ 970 - 1) = Num (2 ^ 1024 - 2 ^ 971)
   \<and> nearestDouble (2 ^ 1024 - 2 ^ 970) = Infinity
   \<and> floorDiv Infinity 8 = Infinity \<and> remainder Infinity 8 = NaN"
  by code_simp

text \<open>
  Claim C9, as the code has it. For every message whose trimmed text is \<open><\<close>, a
  priority text without \<open>>\<close>, \<open>>\<close> and a rest, and whose priority text
  \<open>parseInt\<close> reads as the number P, an integer (the double nearest to the value of
  the digits, hence that value itself below 2^53), \<open>parse\<close> returns a record with facility
  \<open>P div 8\<close> (rounded down) and with the severity \<open>P mod 8\<close> when P is not negative
  and \<open>-((-P) mod 8)\<close> when it is; no range is checked. Priority \<open><131>\<close> gives
  facility 16 and severity 3.
\<close>

theorem parse_priority:
  assumes shape: "trim text = CHR ''<'' # pri @ CHR ''>'' # rest"
    and pri: "CHR ''>'' \<notin> set pri"
    and parsed: "parseInt pri = Num P"
  shows "\<exists>m. parse pe text = Inr m \<and> facility m = Num (P div 8)
           \<and> severity m = Num (if P < 0 then - ((- P) mod 8) else P mod 8)"
proof -
  have idx: "indexOf (CHR ''>'') (trim text) = int (length pri) + 1"
    using indexOf_first [of "CHR ''>''" "CHR ''<'' # pri" rest] pri shape by simp
  have sub: "substring (Suc 0) (nat (int (length pri) + 1)) (trim text) = pri"
    by (simp add: substring_def shape nat_add_distrib)
  have sw: "startsWith ''<'' (trim text)" by (simp add: startsWith_def shape)
  let ?content = "trim (drop (nat (indexOf (CHR ''>'') (trim text)) + 1) (trim text))"
  show ?thesis
  proof (cases "startsWith ''1 '' ?content")
    case True
    obtain m where m: "parseRFC5424 pe (trim text) (floorDiv (Num P) 8) (remainder (Num P) 8)
         (drop 2 ?content) = Inr m"
      using parseRFC5424_returns by blast
    from parseRFC5424_priority [OF m] have "facility m = Num (P div 8)"
      and "severity m = Num (if P < 0 then - ((- P) mod 8) else P mod 8)" by simp_all
    moreover have "parse pe text = Inr m"
      using True sw idx m by (simp add: parse_def Let_def sub parsed)
    ultimately show ?thesis by blast
  next
    case False
    have "parse pe text = Inr (parseRFC3164 pe (trim text) (floorDiv (Num P) 8)
        (remainder (Num P) 8) ?content)"
      using False sw idx by (simp add: parse_def Let_def sub parsed)
    then show ?thesis using parseRFC3164_priority by simp
  qed
qed

theorem parse_priority_witness:
  "trim ''<131>1 - web01 app - - - disk full'' = CHR ''<'' # ''131'' @ CHR ''>'' # ''1 - web01 app - - - disk full''
   \<and> CHR ''>'' \<notin> set ''131'' \<and> parseInt ''131'' = Num 131
   \<and> (\<exists>m. parse syslogEnv ''<131>1 - web01 app - - - disk full'' = Inr m
         \<and> facility m = Num 16 \<and> severity m = Num 3)"
proof -
  have a: "trim ''<131>1 - web01 app - - - disk full''
      = CHR ''<'' # ''131'' @ CHR ''>'' # ''1 - web01 app - - - disk full''"
    by (simp add: trim_def isSpace_def)
  have b: "CHR ''>'' \<notin> set ''131''" by simp
  have c: "parseInt ''131'' = Num 131"
    by (simp add: parseInt_def nearestDouble_def isSpace_def isDigit_def digitsValue_def Let_def)
  from parse_priority [OF a b c, of syslogEnv] a b c show ?thesis by simp
qed

text \<open>
  With the severity \<open>P mod 8\<close> for every P, as the specification words it, the claim
  fails on \<open><-5>x\<close>: the priority is read as -5, the facility is -1, which is
  \<open>-5 div 8\<close>, and the severity is -5, where \<open>-5 mod 8\<close> is 3.
\<close>

theorem parse_priority_counterexample:
  "trim ''<-5>x'' = CHR ''<'' # ''-5'' @ CHR ''>'' # ''x''
   \<and> parseInt ''-5'' = Num (- 5)
   \<and> parse syslogEnv ''<-5>x''
       = Inr \<lparr> facility = Num (- 1), severity = Num (- 5), version = None,
               timestamp = ValidDate 1700000000000, hostname = ''-'', appName = ''-'',
               procId = None, msgId = None, structuredData = None,
               message = ''x'', raw = ''<-5>x'' \<rparr>
   \<and> (- 5 :: int) div 8 = - 1 \<and> (- 5 :: int) mod 8 = 3"
  by code_simp

text \<open>
  Claim C3, as the code has it. For every input text \<open>parse\<close> returns a record and
  throws nothing; and for every input whose trimmed text does not start with \<open><\<close> or
  holds no \<open>>\<close>, the record is the fallback: facility 16, severity 6, the time of the
  call, hostname and application name \<open>-\<close>, and message and raw text both the
  trimmed input.
\<close>

theorem parse_fallback:
  "(\<exists>m. parse pe text = Inr m)
   \<and> (\<not> startsWith ''<'' (trim text) \<or> CHR ''>'' \<notin> set (trim text) \<longrightarrow>
        parse pe text = Inr \<lparr> facility = Num 16, severity = Num 6, version = None,
          timestamp = ValidDate (clock_now pe), hostname = ''-'', appName = ''-'',
          procId = None, msgId = None, structuredData = None,
          message = trim text, raw = trim text \<rparr>)"
proof -
  have "parse pe text = Inr \<lparr> facility = Num 16, severity = Num 6, version = None,
          timestamp = ValidDate (clock_now pe), hostname = ''-'', appName = ''-'',
          procId = None, msgId = None, structuredData = None,
          message = trim text, raw = trim text \<rparr>"
    if "\<not> startsWith ''<'' (trim text) \<or> CHR ''>'' \<notin> set (trim text)"
    using that by (auto simp: parse_def Let_def indexOf_def)
  then show ?thesis using parse_returns by blast
qed

theorem parse_fallback_witness:
  "\<not> startsWith ''<'' (trim '' disk full '')
   \<and> parse syslogEnv '' disk full '' = Inr \<lparr> facility = Num 16, severity = Num 6, version = None,
          timestamp = ValidDate 1700000000000, hostname = ''-'', appName = ''-'',
          procId = None, msgId = None, structuredData = None,
          message = ''disk full'', raw = ''disk full'' \<rparr>"
proof -
  have t: "trim '' disk full '' = ''disk full''" by (simp add: trim_def isSpace_def)
  from parse_fallback [of syslogEnv "'' disk full ''"] t show ?thesis
    by (simp add: startsWith_def syslogEnv_def)
qed

text \<open>
  The claim as the specification words it fails on two inputs. The message and the raw
  text of the fallback for \<open>" disk full"\<close> are the trimmed \<open>"disk full"\<close>, not the
  original text. And \<open><abc>disk full\<close>, whose priority cannot be parsed before its
  \<open>>\<close>, does not get the fallback record: its facility and severity are \<open>NaN\<close>.
\<close>

theorem parse_fallback_counterexample:
  "\<not> startsWith ''<'' '' disk full''
   \<and> parse syslogEnv '' disk full''
       = Inr \<lparr> facility = Num 16, severity = Num 6, version = None,
               timestamp = ValidDate 1700000000000, hostname = ''-'', appName = ''-'',
               procId = None, msgId = None, structuredData = None,
               message = ''disk full'', raw = ''disk full'' \<rparr>
   \<and> ''disk full'' \<noteq> '' disk full''
   \<and> startsWith ''<'' ''<abc>disk full'' \<and> parseInt ''abc'' = NaN
   \<and> parse syslogEnv ''<abc>disk full''
       = Inr \<lparr> facility = NaN, severity = NaN, version = None,
               timestamp = ValidDate 1700000000000, hostname = ''-'', appName = ''-'',
               procId = None, msgId = None, structuredData = None,
               message = ''disk full'', raw = ''<abc>disk full'' \<rparr>"
  by code_simp

end
